theory Spec2Isabelle
  imports Main
begin

section \<open>Values, objects and the schema\<close>

text \<open>
  The builder of \<^verbatim>\<open>src/builder.js\<close> is generated from a schema definition and keeps one
  object, \<^verbatim>\<open>this.choices\<close>, from field paths to chosen values.

  Values supplied by a caller are the primitive values of JavaScript. Numbers are
  restricted to integers: the code observes a number only through \<^verbatim>\<open>typeof\<close> and, when
  it is used as a property name, through its decimal rendering.
\<close>

datatype jsvalue = VUndefined | VNull | VBoolean bool | VNumber int | VString string

text \<open>The two symbols of \<^verbatim>\<open>OptionLiterals\<close>.\<close>

datatype literal = STRING | NUMBER

definition OptionLiterals :: "(string \<times> literal) list" where
  "OptionLiterals = [(''STRING'', STRING), (''NUMBER'', NUMBER)]"

text \<open>
  The code receives the schema definition as a plain object. The model covers the
  definitions of the shape that section 3 of the specification gives: a node
  \<^verbatim>\<open>{ fields: {...} }\<close>, and a field specification \<^verbatim>\<open>{ options, required?, validation? }\<close>
  whose options are a literal symbol or an object from option names to nodes. An object
  is an association list in the order in which JavaScript enumerates its own properties,
  and its names are pairwise distinct, so that walking \<^verbatim>\<open>keys(obj)\<close> and reading
  \<^verbatim>\<open>obj[key]\<close> is walking the entries. A validation predicate is represented by the
  truthiness of its result.
\<close>

datatype fieldspec =
    FieldSpec (spec_options: optionspace) (spec_required: "bool option")
      (spec_validation: "(jsvalue \<Rightarrow> bool) option")
  and optionspace = Literal literal | Enumerated "(string \<times> schemanode) list"
  and schemanode = SchemaNode (node_fields: "(string \<times> fieldspec) list")

text \<open>
  The values that a property walk from \<^verbatim>\<open>definition.fields\<close> can reach: the parts of a
  schema definition, or \<^verbatim>\<open>undefined\<close>.
\<close>

datatype jsref =
    RUndefined
  | RFields "(string \<times> fieldspec) list"
  | RSpec fieldspec
  | RSymbol literal
  | ROptions "(string \<times> schemanode) list"
  | RNode schemanode
  | RBoolean bool
  | RFunction "jsvalue \<Rightarrow> bool"

text \<open>The errors the code can raise: its two classes, and the TypeError of the runtime.\<close>

datatype error =
    InvalidField string
  | InvalidChoice string jsvalue "string option"
  | TypeError

type_synonym choices = "(string \<times> jsvalue) list"

subsection \<open>Primitive operations of the language\<close>

fun typeof :: "jsvalue \<Rightarrow> string" where
  "typeof VUndefined = ''undefined''"
| "typeof VNull = ''object''"
| "typeof (VBoolean b) = ''boolean''"
| "typeof (VNumber n) = ''number''"
| "typeof (VString s) = ''string''"

fun string_of_nat :: "nat \<Rightarrow> string" where
  "string_of_nat n =
     (if n < 10 then [''0123456789'' ! n]
      else string_of_nat (n div 10) @ [''0123456789'' ! (n mod 10)])"

declare string_of_nat.simps [simp del]

definition string_of_int :: "int \<Rightarrow> string" where
  "string_of_int i =
     (if i < 0 then CHR ''-'' # string_of_nat (nat (- i)) else string_of_nat (nat i))"

text \<open>A value used as a property name is converted to a string.\<close>

fun property_key :: "jsvalue \<Rightarrow> string" where
  "property_key VUndefined = ''undefined''"
| "property_key VNull = ''null''"
| "property_key (VBoolean b) = (if b then ''true'' else ''false'')"
| "property_key (VNumber n) = string_of_int n"
| "property_key (VString s) = s"

text \<open>
  \<^verbatim>\<open>this.choices[field]\<close>: the value of an own property, \<^verbatim>\<open>undefined\<close> when there is
  none. Properties inherited from \<^verbatim>\<open>Object.prototype\<close> are outside the model: no field
  path is taken to be one of its names.
\<close>

definition lookup :: "choices \<Rightarrow> string \<Rightarrow> jsvalue" where
  "lookup obj k = (case map_of obj k of Some v \<Rightarrow> v | None \<Rightarrow> VUndefined)"

text \<open>
  \<^verbatim>\<open>this.choices[field] = value\<close>: an existing property keeps its place, a new one is
  enumerated last (no field path is taken to be an array index, which JavaScript
  would enumerate first). The name \<^verbatim>\<open>__proto__\<close> is the accessor that
  \<^verbatim>\<open>Object.prototype\<close> declares: assigning a primitive value to it creates no own
  property and leaves the object as it is.
\<close>

fun assign :: "choices \<Rightarrow> string \<Rightarrow> jsvalue \<Rightarrow> choices" where
  "assign [] k v = (if k = ''__proto__'' then [] else [(k, v)])"
| "assign ((k', v') # rest) k v =
     (if k = ''__proto__'' then (k', v') # rest
      else if k' = k then (k, v) # rest
      else (k', v') # assign rest k v)"

text \<open>
  Ramda's \<^verbatim>\<open>merge(l, r)\<close> is \<^verbatim>\<open>Object.assign({}, l, r)\<close>, which assigns the own
  properties of \<^verbatim>\<open>l\<close> and then of \<^verbatim>\<open>r\<close> to a new object.
\<close>

definition merge :: "choices \<Rightarrow> choices \<Rightarrow> choices" where
  "merge l r = foldl (\<lambda>obj (k, v). assign obj k v) [] (l @ r)"

text \<open>\<^verbatim>\<open>split('.', s)\<close> and \<^verbatim>\<open>join(sep, xs)\<close>.\<close>

fun split_dot :: "string \<Rightarrow> string list" where
  "split_dot [] = [[]]"
| "split_dot (c # cs) =
     (if c = CHR ''.'' then [] # split_dot cs
      else (case split_dot cs of [] \<Rightarrow> [[c]] | w # ws \<Rightarrow> (c # w) # ws))"

fun join :: "string \<Rightarrow> string list \<Rightarrow> string" where
  "join sep [] = []"
| "join sep [x] = x"
| "join sep (x # y # ys) = x @ sep @ join sep (y # ys)"

text \<open>
  \<^verbatim>\<open>val[key]\<close> on a value that is not \<^verbatim>\<open>undefined\<close>, own properties only. The built-in
  properties of symbols, booleans and functions are outside the model.
\<close>

fun property :: "jsref \<Rightarrow> string \<Rightarrow> jsref" where
  "property (RFields fs) k = (case map_of fs k of Some s \<Rightarrow> RSpec s | None \<Rightarrow> RUndefined)"
| "property (RSpec (FieldSpec opts req vld)) k =
     (if k = ''options'' then (case opts of Literal l \<Rightarrow> RSymbol l | Enumerated m \<Rightarrow> ROptions m)
      else if k = ''required'' then (case req of Some b \<Rightarrow> RBoolean b | None \<Rightarrow> RUndefined)
      else if k = ''validation'' then (case vld of Some f \<Rightarrow> RFunction f | None \<Rightarrow> RUndefined)
      else RUndefined)"
| "property (ROptions m) k = (case map_of m k of Some n \<Rightarrow> RNode n | None \<Rightarrow> RUndefined)"
| "property (RNode (SchemaNode fs)) k = (if k = ''fields'' then RFields fs else RUndefined)"
| "property _ k = RUndefined"

text \<open>
  Ramda's \<^verbatim>\<open>path(keys, obj)\<close>: follow the keys, and return \<^verbatim>\<open>undefined\<close> as soon as
  the value reached is \<^verbatim>\<open>undefined\<close>. A key is any value; it is converted to a
  property name when it is used.
\<close>

fun path :: "jsvalue list \<Rightarrow> jsref \<Rightarrow> jsref" where
  "path [] val = val"
| "path (k # ks) val =
     (case val of RUndefined \<Rightarrow> RUndefined | _ \<Rightarrow> path ks (property val (property_key k)))"

text \<open>
  Ramda's \<^verbatim>\<open>keys\<close>: the own property names of an object, the empty list for anything
  else. The properties of a field specification are taken in the order
  \<^verbatim>\<open>options\<close>, \<^verbatim>\<open>required\<close>, \<^verbatim>\<open>validation\<close>.
\<close>

fun keys :: "jsref \<Rightarrow> string list" where
  "keys (RFields fs) = map fst fs"
| "keys (RSpec (FieldSpec opts req vld)) =
     ''options'' # (case req of Some b \<Rightarrow> [''required''] | None \<Rightarrow> [])
       @ (case vld of Some f \<Rightarrow> [''validation''] | None \<Rightarrow> [])"
| "keys (ROptions m) = map fst m"
| "keys (RNode n) = [''fields'']"
| "keys _ = []"

text \<open>Ramda's \<^verbatim>\<open>isEmpty\<close> on a path element: true of the empty string only.\<close>

fun isEmpty :: "jsvalue \<Rightarrow> bool" where
  "isEmpty (VString s) = (s = [])"
| "isEmpty _ = False"

fun isNil :: "jsvalue \<Rightarrow> bool" where
  "isNil VUndefined = True"
| "isNil VNull = True"
| "isNil _ = False"

text \<open>\<^verbatim>\<open>typeof\<close> and Ramda's \<^verbatim>\<open>type\<close> on a part of the schema definition.\<close>

fun typeof_ref :: "jsref \<Rightarrow> string" where
  "typeof_ref RUndefined = ''undefined''"
| "typeof_ref (RSymbol l) = ''symbol''"
| "typeof_ref (RBoolean b) = ''boolean''"
| "typeof_ref (RFunction f) = ''function''"
| "typeof_ref _ = ''object''"

fun type_ref :: "jsref \<Rightarrow> string" where
  "type_ref RUndefined = ''Undefined''"
| "type_ref (RSymbol l) = ''Symbol''"
| "type_ref (RBoolean b) = ''Boolean''"
| "type_ref (RFunction f) = ''Function''"
| "type_ref _ = ''Object''"

section \<open>The generated builder\<close>

text \<open>
  The methods below take the schema definition the builder class was generated from
  and the contents of \<^verbatim>\<open>this.choices\<close>. Three names differ from the code, where
  HOL has the word already: \<open>property\<close> is the property access \<^verbatim>\<open>val[key]\<close>,
  \<open>choose_value\<close> is \<^verbatim>\<open>choose\<close> and \<open>new_GeneratedBuilder\<close> is the constructor.
\<close>

subsection \<open>\<^verbatim>\<open>fields()\<close>\<close>

text \<open>
  \<^verbatim>\<open>ideaFn(config, breadcrumb)\<close> answers its own path followed by what each child
  contributes: the child's path when its options are a symbol or no choice is recorded
  for it, and otherwise the answer of \<^verbatim>\<open>ideaFn\<close> on the node of the chosen option.
  When the recorded choice is not an option of the field, that node is \<^verbatim>\<open>undefined\<close>
  and reading \<^verbatim>\<open>config.fields\<close> raises a TypeError.
\<close>

lemma map_of_size:
  "map_of m k = Some (n::schemanode) \<Longrightarrow> size n < Suc (size_list (size_prod (\<lambda>_. 0) size) m)"
  by (induction m) (auto split: if_splits)

function ideaFn :: "choices \<Rightarrow> schemanode \<Rightarrow> string list \<Rightarrow> error + string list"
  and ideaFn_children ::
    "choices \<Rightarrow> (string \<times> fieldspec) list \<Rightarrow> string list \<Rightarrow> error + string list"
where
  "ideaFn ch (SchemaNode fs) breadcrumb =
     (case ideaFn_children ch fs breadcrumb of
        Inl e \<Rightarrow> Inl e
      | Inr rs \<Rightarrow> Inr (join ''.'' breadcrumb # rs))"
| "ideaFn_children ch [] breadcrumb = Inr []"
| "ideaFn_children ch ((key, FieldSpec opts req vld) # rest) breadcrumb =
     (let route = breadcrumb @ [key];
          choicePath = join ''.'' route
      in case (case opts of
                 Literal l \<Rightarrow> Inr [choicePath]
               | Enumerated m \<Rightarrow>
                   if lookup ch choicePath = VUndefined then Inr [choicePath]
                   else (case map_of m (property_key (lookup ch choicePath)) of
                           None \<Rightarrow> Inl TypeError
                         | Some config \<Rightarrow> ideaFn ch config route)) of
           Inl e \<Rightarrow> Inl e
         | Inr r \<Rightarrow>
             (case ideaFn_children ch rest breadcrumb of
                Inl e \<Rightarrow> Inl e
              | Inr rs \<Rightarrow> Inr (r @ rs)))"
  by pat_completeness auto
termination
  by (relation "measure (\<lambda>x. case x of
        Inl (ch, n, bc) \<Rightarrow> size n
      | Inr (ch, fs, bc) \<Rightarrow> size_list (size_prod (\<lambda>_. 0) size) fs)")
    (auto dest: map_of_size)

text \<open>The path of the root, the empty string, is dropped.\<close>

definition fields :: "schemanode \<Rightarrow> choices \<Rightarrow> error + string list" where
  "fields defn ch = (case ideaFn ch defn [] of Inl e \<Rightarrow> Inl e | Inr r \<Rightarrow> Inr (tl r))"

subsection \<open>\<^verbatim>\<open>requires()\<close>, \<^verbatim>\<open>_choiceConfig(field)\<close>, \<^verbatim>\<open>options(field)\<close>, \<^verbatim>\<open>get(field)\<close>\<close>

definition requires :: "schemanode \<Rightarrow> string list" where
  "requires defn = map fst (filter (\<lambda>(k, s). spec_required s = Some True) (node_fields defn))"

text \<open>
  Every segment of the path but the last contributes the four keys
  \<^verbatim>\<open>[option, 'options', this.choices[option], 'fields']\<close>, where \<^verbatim>\<open>option\<close> is the segment
  itself; empty strings are removed from the keys before the walk.
\<close>

definition choiceConfig :: "schemanode \<Rightarrow> choices \<Rightarrow> string \<Rightarrow> jsref" where
  "choiceConfig defn ch field =
     (let breadcrumb = split_dot field;
          choices = butlast breadcrumb;
          builtPath =
            concat (map (\<lambda>option. [VString option, VString ''options'', lookup ch option,
                                   VString ''fields'']) choices)
              @ [VString (last breadcrumb)]
      in path (filter (\<lambda>k. \<not> isEmpty k) builtPath) (RFields (node_fields defn)))"

text \<open>
  What \<^verbatim>\<open>options(field)\<close> answers: a literal symbol, a list of names, or \<^verbatim>\<open>undefined\<close>
  when neither case of the \<^verbatim>\<open>cond\<close> applies. Ramda's \<^verbatim>\<open>prop(p, obj)\<close> is taken as
  \<^verbatim>\<open>path([p], obj)\<close>, which answers \<^verbatim>\<open>undefined\<close> on \<^verbatim>\<open>undefined\<close>.
\<close>

datatype optionsresult = OSymbol literal | ONames "string list" | OUndefined

definition options :: "schemanode \<Rightarrow> choices \<Rightarrow> string \<Rightarrow> optionsresult" where
  "options defn ch field =
     (let opts = path [VString ''options''] (choiceConfig defn ch field)
      in case opts of
           RSymbol l \<Rightarrow> OSymbol l
         | _ \<Rightarrow> if type_ref opts = ''Object'' then ONames (keys opts) else OUndefined)"

definition get :: "choices \<Rightarrow> string \<Rightarrow> jsvalue" where
  "get ch field = lookup ch field"

subsection \<open>\<^verbatim>\<open>missing()\<close>\<close>

definition undefinedChoice :: "choices \<Rightarrow> string \<Rightarrow> bool" where
  "undefinedChoice ch field = (lookup ch field = VUndefined)"

definition literalChoice :: "jsref \<Rightarrow> bool" where
  "literalChoice f =
     (case property f ''options'' of RSymbol l \<Rightarrow> l \<in> set (map snd OptionLiterals) | _ \<Rightarrow> False)"

text \<open>
  \<^verbatim>\<open>keys(reject(literalChoice, fields))\<close>. Ramda's \<^verbatim>\<open>reject\<close> reads a property of its
  last argument before anything else, which raises on \<^verbatim>\<open>undefined\<close>; on a function
  it walks \<^verbatim>\<open>fields.length\<close> absent elements and \<^verbatim>\<open>literalChoice\<close> raises on the first
  (a validation predicate takes one argument); on a symbol or a boolean it answers the
  empty list.
\<close>

fun nonLiteralChoices :: "jsref \<Rightarrow> error + string list" where
  "nonLiteralChoices RUndefined = Inl TypeError"
| "nonLiteralChoices (RFunction f) = Inl TypeError"
| "nonLiteralChoices (RSymbol l) = Inr []"
| "nonLiteralChoices (RBoolean b) = Inr []"
| "nonLiteralChoices obj = Inr (filter (\<lambda>k. \<not> literalChoice (property obj k)) (keys obj))"

text \<open>
  \<^verbatim>\<open>findMissingFor\<close> calls itself on the made choices of every path of its work list,
  and nothing in the code bounds the depth: with a field whose name is the empty string
  the recursion never ends. The first argument bounds the depth of the calls, and
  \<open>None\<close> says that the bound was reached. The values the callback binds for one
  path of the work list (\<^verbatim>\<open>fields\<close>, \<^verbatim>\<open>addBreadcrumb\<close>, \<^verbatim>\<open>missingChoices\<close>,
  \<^verbatim>\<open>madeChoices\<close>) are definitions of their own.
\<close>

definition levelFields :: "schemanode \<Rightarrow> choices \<Rightarrow> string \<Rightarrow> jsref" where
  "levelFields defn ch choicePath =
     (let choice = lookup ch choicePath;
          config = choiceConfig defn ch choicePath
      in if isNil choice then config
         else path [VString ''options'', choice, VString ''fields''] config)"

definition addBreadcrumb :: "string \<Rightarrow> string \<Rightarrow> string" where
  "addBreadcrumb choicePath field =
     (if choicePath = [] then field else choicePath @ ''.'' @ field)"

definition missingChoices :: "schemanode \<Rightarrow> choices \<Rightarrow> string \<Rightarrow> string list" where
  "missingChoices defn ch choicePath =
     filter (undefinedChoice ch)
       (map (addBreadcrumb choicePath) (keys (levelFields defn ch choicePath)))"

definition madeChoices :: "choices \<Rightarrow> string \<Rightarrow> string list \<Rightarrow> string list" where
  "madeChoices ch choicePath nonLiteral =
     filter (\<lambda>p. \<not> undefinedChoice ch p) (map (addBreadcrumb choicePath) nonLiteral)"

fun findMissingFor ::
  "nat \<Rightarrow> schemanode \<Rightarrow> choices \<Rightarrow> string list \<Rightarrow> (error + string list) option"
where
  "findMissingFor fuel defn ch [] = Some (Inr [])"
| "findMissingFor 0 defn ch (choicePath # rest) = None"
| "findMissingFor (Suc fuel) defn ch (choicePath # rest) =
     (case nonLiteralChoices (levelFields defn ch choicePath) of
        Inl e \<Rightarrow> Some (Inl e)
      | Inr nonLiteral \<Rightarrow>
          (case findMissingFor fuel defn ch (madeChoices ch choicePath nonLiteral) of
             None \<Rightarrow> None
           | Some (Inl e) \<Rightarrow> Some (Inl e)
           | Some (Inr deeper) \<Rightarrow>
               (case findMissingFor (Suc fuel) defn ch rest of
                  None \<Rightarrow> None
                | Some (Inl e) \<Rightarrow> Some (Inl e)
                | Some (Inr others) \<Rightarrow>
                    Some (Inr (missingChoices defn ch choicePath @ deeper @ others)))))"

definition missing :: "nat \<Rightarrow> schemanode \<Rightarrow> choices \<Rightarrow> (error + string list) option" where
  "missing fuel defn ch = findMissingFor fuel defn ch [[]]"

subsection \<open>The constructor and \<^verbatim>\<open>choose\<close>\<close>

text \<open>
  The body of the \<^verbatim>\<open>forEach\<close> callback up to the assignment: \<open>None\<close> when the value
  is accepted, the error raised otherwise. The checks come in the order of the code:
  the field is among \<^verbatim>\<open>this.fields()\<close>; the \<^verbatim>\<open>switch\<close> on \<^verbatim>\<open>typeof validOptions\<close>; the
  validation rule.
\<close>

fun checkOptions :: "string \<Rightarrow> jsvalue \<Rightarrow> jsref \<Rightarrow> error option" where
  "checkOptions field v (RSymbol STRING) =
     (if typeof v \<noteq> ''string'' then Some (InvalidChoice field v (Some ''must be string''))
      else None)"
| "checkOptions field v (RSymbol NUMBER) =
     (if typeof v \<noteq> ''number'' then Some (InvalidChoice field v (Some ''must be number''))
      else None)"
| "checkOptions field v RUndefined = None"
| "checkOptions field v (RBoolean b) = None"
| "checkOptions field v (RFunction f) = None"
| "checkOptions field v validOptions =
     (if v \<notin> set (map VString (keys validOptions)) then
        Some (InvalidChoice field v
          (Some (''must be one of ['' @ join '', '' (keys validOptions) @ '']'')))
      else None)"

text \<open>
  \<^verbatim>\<open>choiceConfig.validation || always(true)\<close>, applied to the value: a function is
  called, a falsy value stands for the rule that accepts everything, and calling
  anything else raises a TypeError.
\<close>

fun checkValidation :: "string \<Rightarrow> jsvalue \<Rightarrow> jsref \<Rightarrow> error option" where
  "checkValidation field v RUndefined = None"
| "checkValidation field v (RBoolean False) = None"
| "checkValidation field v (RFunction f) =
     (if \<not> f v then Some (InvalidChoice field v None) else None)"
| "checkValidation field v _ = Some TypeError"

definition validate :: "schemanode \<Rightarrow> choices \<Rightarrow> string \<Rightarrow> jsvalue \<Rightarrow> error option" where
  "validate defn ch field v =
     (case fields defn ch of
        Inl e \<Rightarrow> Some e
      | Inr reachable \<Rightarrow>
          if field \<notin> set reachable then Some (InvalidField field)
          else (case choiceConfig defn ch field of
                  RUndefined \<Rightarrow> Some TypeError
                | config \<Rightarrow>
                    (case checkOptions field v (property config ''options'') of
                       Some e \<Rightarrow> Some e
                     | None \<Rightarrow> checkValidation field v (property config ''validation''))))"

text \<open>
  The objects \<^verbatim>\<open>this.choices\<close> of the builders made so far live in a heap; a builder is
  the address of its object, which the constructor allocates and no other code
  assigns. The constructor visits \<^verbatim>\<open>Object.keys(values)\<close> in order, validates
  \<^verbatim>\<open>values[field]\<close> against the choices assigned so far, and assigns it. When a
  callback raises, the constructor raises and no builder is returned.
\<close>

type_synonym heap = "choices list"

fun forEach ::
  "schemanode \<Rightarrow> choices \<Rightarrow> string list \<Rightarrow> nat \<Rightarrow> heap \<Rightarrow> heap \<times> (error + nat)"
where
  "forEach defn vals [] this h = (h, Inr this)"
| "forEach defn vals (field # rest) this h =
     (case validate defn (h ! this) field (lookup vals field) of
        Some e \<Rightarrow> (h, Inl e)
      | None \<Rightarrow>
          forEach defn vals rest this
            (h[this := assign (h ! this) field (lookup vals field)]))"

definition new_GeneratedBuilder :: "schemanode \<Rightarrow> choices \<Rightarrow> heap \<Rightarrow> heap \<times> (error + nat)" where
  "new_GeneratedBuilder defn vals h = forEach defn vals (map fst vals) (length h) (h @ [[]])"

definition choose_value ::
  "schemanode \<Rightarrow> heap \<Rightarrow> nat \<Rightarrow> string \<Rightarrow> jsvalue \<Rightarrow> heap \<times> (error + nat)"
where
  "choose_value defn h this field v = new_GeneratedBuilder defn (merge (h ! this) [(field, v)]) h"

section \<open>Builders and schemas the properties speak about\<close>

text \<open>
  The choices the loop of the constructor assigns, apart from the heap: the object
  \<^verbatim>\<open>this.choices\<close> after the keys have been visited, or the error of the first
  callback that raises.
\<close>

fun assigned :: "schemanode \<Rightarrow> choices \<Rightarrow> string list \<Rightarrow> choices \<Rightarrow> error + choices" where
  "assigned defn vals [] ch = Inr ch"
| "assigned defn vals (field # rest) ch =
     (case validate defn ch field (lookup vals field) of
        Some e \<Rightarrow> Inl e
      | None \<Rightarrow> assigned defn vals rest (assign ch field (lookup vals field)))"

text \<open>
  The choices of a builder: an object (its names are distinct) that the constructor
  accepts. Every builder is made by the constructor, \<^verbatim>\<open>choose\<close> included.
\<close>

definition built :: "schemanode \<Rightarrow> choices \<Rightarrow> bool" where
  "built defn ch \<longleftrightarrow> distinct (map fst ch) \<and> snd (new_GeneratedBuilder defn ch []) = Inr 0"

text \<open>
  The names of the fields of a schema definition, at every depth. A field path joins
  names with a dot, so a well-formed definition has no dot inside a name.
\<close>

fun fieldNames :: "schemanode \<Rightarrow> string list"
  and fieldNames_fields :: "(string \<times> fieldspec) list \<Rightarrow> string list"
  and fieldNames_options :: "(string \<times> schemanode) list \<Rightarrow> string list"
where
  "fieldNames (SchemaNode fs) = fieldNames_fields fs"
| "fieldNames_fields [] = []"
| "fieldNames_fields ((key, FieldSpec opts req vld) # rest) =
     key # (case opts of Literal l \<Rightarrow> [] | Enumerated m \<Rightarrow> fieldNames_options m)
       @ fieldNames_fields rest"
| "fieldNames_options [] = []"
| "fieldNames_options ((name, node) # rest) = fieldNames node @ fieldNames_options rest"

definition dotFree :: "schemanode \<Rightarrow> bool" where
  "dotFree defn \<longleftrightarrow> list_all (\<lambda>name. CHR ''.'' \<notin> set name) (fieldNames defn)"

text \<open>
  The schema of the scenario of the specification: a required string \<^verbatim>\<open>name\<close>, and
  \<^verbatim>\<open>class\<close> with the options \<^verbatim>\<open>warrior\<close> (no fields) and \<^verbatim>\<open>mage\<close> (a required
  string \<^verbatim>\<open>spell\<close>).
\<close>

definition scenario :: schemanode where
  "scenario = SchemaNode
     [(''name'', FieldSpec (Literal STRING) (Some True) None),
      (''class'', FieldSpec (Enumerated
          [(''warrior'', SchemaNode []),
           (''mage'', SchemaNode [(''spell'', FieldSpec (Literal STRING) (Some True) None)])])
        (Some True) None)]"

text \<open>
  Whether a value fits the option space of a field: the type of the literal symbol, or
  one of the names of the option map.
\<close>

fun matchesOptions :: "optionspace \<Rightarrow> jsvalue \<Rightarrow> bool" where
  "matchesOptions (Literal STRING) v = (typeof v = ''string'')"
| "matchesOptions (Literal NUMBER) v = (typeof v = ''number'')"
| "matchesOptions (Enumerated m) v = (v \<in> set (map VString (map fst m)))"

text \<open>
  The field a path names when the choice recorded for the path of each ancestor is
  followed, which is how \<^verbatim>\<open>ideaFn\<close> descends; and what the invariants 1 to 4 of
  section 3 of the specification ask of the recorded choices: every path names a field,
  and its value fits the options and the validation predicate of that field.
\<close>

fun fieldAt ::
  "choices \<Rightarrow> (string \<times> fieldspec) list \<Rightarrow> string list \<Rightarrow> string list \<Rightarrow> fieldspec option"
where
  "fieldAt ch fs breadcrumb [] = None"
| "fieldAt ch fs breadcrumb [key] = map_of fs key"
| "fieldAt ch fs breadcrumb (key # rest) =
     (case map_of fs key of
        Some (FieldSpec (Enumerated m) req vld) \<Rightarrow>
          (case map_of m (property_key (lookup ch (join ''.'' (breadcrumb @ [key])))) of
             Some (SchemaNode fs') \<Rightarrow> fieldAt ch fs' (breadcrumb @ [key]) rest
           | None \<Rightarrow> None)
      | _ \<Rightarrow> None)"

definition governing :: "schemanode \<Rightarrow> choices \<Rightarrow> string \<Rightarrow> fieldspec option" where
  "governing defn ch p = fieldAt ch (node_fields defn) [] (split_dot p)"

definition respectsSchema :: "schemanode \<Rightarrow> choices \<Rightarrow> bool" where
  "respectsSchema defn ch \<longleftrightarrow>
     list_all (\<lambda>(p, v). case governing defn ch p of
                 None \<Rightarrow> False
               | Some (FieldSpec opts req vld) \<Rightarrow>
                   matchesOptions opts v \<and> (case vld of None \<Rightarrow> True | Some f \<Rightarrow> f v)) ch"

text \<open>
  Two more schemas. In \<open>guild\<close>, \<^verbatim>\<open>class\<close> has the options \<^verbatim>\<open>mage\<close> (a string
  \<^verbatim>\<open>spell\<close>, a number \<^verbatim>\<open>level\<close>) and \<^verbatim>\<open>cleric\<close> (a number \<^verbatim>\<open>spell\<close>), and \<^verbatim>\<open>age\<close> is a
  number with a validation predicate. In \<open>wizard\<close>, fields nest three deep
  (\<^verbatim>\<open>class.weapon.core\<close>) and the root has a field \<^verbatim>\<open>weapon\<close> of its own.
\<close>

definition positive :: "jsvalue \<Rightarrow> bool" where
  "positive v = (case v of VNumber n \<Rightarrow> 0 < n | _ \<Rightarrow> False)"



definition wizard :: schemanode where
  "wizard = SchemaNode
     [(''class'', FieldSpec (Enumerated
          [(''mage'', SchemaNode
              [(''weapon'', FieldSpec (Enumerated
                  [(''staff'', SchemaNode
                      [(''core'', FieldSpec (Enumerated [(''phoenix'', SchemaNode [])]) None None)]),
                   (''wand'', SchemaNode
                      [(''core'', FieldSpec (Literal STRING) None None)])])
                None None)])])
        None None),
      (''weapon'', FieldSpec (Enumerated [(''wand'', SchemaNode [])]) None None)]"

definition wizard_choices :: choices where
  "wizard_choices =
     [(''class'', VString ''mage''), (''class.weapon'', VString ''staff''),
      (''weapon'', VString ''wand''), (''class.weapon.core'', VString ''hello'')]"

text \<open>
  The own entries of a mapping that assignment records: all but \<^verbatim>\<open>__proto__\<close>. A
  ChoiceSet is what a builder holds: choices the constructor accepts, without that name.
\<close>

definition own :: "choices \<Rightarrow> choices" where
  "own vals = filter (\<lambda>(k, v). k \<noteq> ''__proto__'') vals"

definition choiceSet :: "schemanode \<Rightarrow> choices \<Rightarrow> bool" where
  "choiceSet defn ch \<longleftrightarrow> built defn ch \<and> ''__proto__'' \<notin> fst ` set ch"





text \<open>
  Two schemas more. In \<open>deep\<close>, fields nest three deep (\<^verbatim>\<open>class.weapon.core\<close>, with the
  one option \<^verbatim>\<open>phoenix\<close>) and the root has the field \<^verbatim>\<open>class\<close> only. In \<open>tavern\<close>, the
  field \<^verbatim>\<open>drink\<close> has the options \<^verbatim>\<open>ale\<close> and \<^verbatim>\<open>mead\<close> and a validation predicate that
  rejects \<^verbatim>\<open>mead\<close>.
\<close>

definition deep :: schemanode where
  "deep = SchemaNode
     [(''class'', FieldSpec (Enumerated
          [(''mage'', SchemaNode
              [(''weapon'', FieldSpec (Enumerated
                  [(''staff'', SchemaNode
                      [(''core'', FieldSpec (Enumerated [(''phoenix'', SchemaNode [])]) None None)])])
                None None)])])
        None None)]"

definition deep_choices :: choices where
  "deep_choices = [(''class'', VString ''mage''), (''class.weapon'', VString ''staff'')]"



section \<open>The constructor, step by step\<close>

text \<open>
  The loop of the constructor changes the object of the new builder only, and its
  outcome is that of \<open>assigned\<close>.
\<close>

lemma forEach_assigned:
  "this < length h \<Longrightarrow>
   snd (forEach defn vals ks this h) =
     (case assigned defn vals ks (h ! this) of Inl e \<Rightarrow> Inl e | Inr ch \<Rightarrow> Inr this) \<and>
   (\<forall>ch. assigned defn vals ks (h ! this) = Inr ch \<longrightarrow>
      fst (forEach defn vals ks this h) = h[this := ch])"
proof (induction ks arbitrary: h)
  case Nil
  then show ?case by simp
next
  case (Cons k ks)
  show ?case
  proof (cases "validate defn (h ! this) k (lookup vals k)")
    case None
    let ?h = "h[this := assign (h ! this) k (lookup vals k)]"
    have "this < length ?h" using Cons.prems by simp
    from Cons.IH [OF this] Cons.prems None show ?thesis
      by simp
  next
    case (Some e)
    then show ?thesis by simp
  qed
qed

lemma forEach_frame:
  "this < length h \<Longrightarrow>
   length (fst (forEach defn vals ks this h)) = length h \<and>
   (\<forall>a. a \<noteq> this \<longrightarrow> fst (forEach defn vals ks this h) ! a = h ! a)"
proof (induction ks arbitrary: h)
  case Nil
  then show ?case by simp
next
  case (Cons k ks)
  show ?case
  proof (cases "validate defn (h ! this) k (lookup vals k)")
    case None
    let ?h = "h[this := assign (h ! this) k (lookup vals k)]"
    have "this < length ?h" using Cons.prems by simp
    from Cons.IH [OF this] None show ?thesis by simp
  next
    case (Some e)
    then show ?thesis by simp
  qed
qed

lemma constructor_frame:
  "length (fst (new_GeneratedBuilder defn vals h)) = Suc (length h) \<and>
   (\<forall>a<length h. fst (new_GeneratedBuilder defn vals h) ! a = h ! a)"
  using forEach_frame [of "length h" "h @ [[]]" defn vals "map fst vals"]
  by (simp add: new_GeneratedBuilder_def nth_append)

lemma constructor_assigned:
  "snd (new_GeneratedBuilder defn vals h) =
     (case assigned defn vals (map fst vals) [] of Inl e \<Rightarrow> Inl e | Inr ch \<Rightarrow> Inr (length h))"
  using forEach_assigned [of "length h" "h @ [[]]" defn vals "map fst vals"]
  by (simp add: new_GeneratedBuilder_def)

lemma constructor_heap:
  "assigned defn vals (map fst vals) [] = Inr ch \<Longrightarrow>
     fst (new_GeneratedBuilder defn vals h) = h @ [ch]"
  using forEach_assigned [of "length h" "h @ [[]]" defn vals "map fst vals"]
  by (simp add: new_GeneratedBuilder_def)

text \<open>Assignment, \<^verbatim>\<open>merge\<close> and the names of the object.\<close>

lemma assign_proto: "assign ch ''__proto__'' v = ch"
  by (cases ch) auto

lemma assign_fresh:
  "k \<noteq> ''__proto__'' \<Longrightarrow> k \<notin> fst ` set ch \<Longrightarrow> assign ch k v = ch @ [(k, v)]"
  by (induction ch) auto

lemma assign_names:
  "map fst (assign ch k v) =
     (if k = ''__proto__'' \<or> k \<in> fst ` set ch then map fst ch else map fst ch @ [k])"
proof (cases "k = ''__proto__''")
  case True
  then show ?thesis by (simp add: assign_proto)
next
  case notproto: False
  show ?thesis
  proof (induction ch)
    case Nil
    from notproto show ?case by simp
  next
    case (Cons x ch)
    obtain k' v' where x: "x = (k', v')" by (cases x)
    show ?case
    proof (cases "k' = k")
      case True
      with x notproto show ?thesis by simp
    next
      case False
      with x notproto Cons.IH show ?thesis by (cases "k \<in> fst ` set ch") auto
    qed
  qed
qed

lemma assign_distinct: "distinct (map fst ch) \<Longrightarrow> distinct (map fst (assign ch k v))"
  by (simp add: assign_names)

lemma assign_no_proto:
  "''__proto__'' \<notin> fst ` set ch \<Longrightarrow> ''__proto__'' \<notin> fst ` set (assign ch k v)"
proof -
  assume a: "''__proto__'' \<notin> fst ` set ch"
  have "fst ` set (assign ch k v) = set (map fst (assign ch k v))" by simp
  also have "\<dots> \<subseteq> set (map fst ch) \<union> (if k = ''__proto__'' then {} else {k})"
    unfolding assign_names by auto
  finally show ?thesis using a by (auto split: if_splits)
qed

lemma foldl_assign_distinct:
  "distinct (map fst acc) \<Longrightarrow>
   distinct (map fst (foldl (\<lambda>obj (k, v). assign obj k v) acc xs))"
  by (induction xs arbitrary: acc) (auto simp: assign_distinct)

lemma foldl_assign_no_proto:
  "''__proto__'' \<notin> fst ` set acc \<Longrightarrow>
   ''__proto__'' \<notin> fst ` set (foldl (\<lambda>obj (k, v). assign obj k v) acc xs)"
proof (induction xs arbitrary: acc)
  case Nil
  then show ?case by simp
next
  case (Cons x xs)
  obtain k v where x: "x = (k, v)" by (cases x)
  from assign_no_proto [OF Cons.prems, of k v] have "''__proto__'' \<notin> fst ` set (assign acc k v)" .
  from Cons.IH [OF this] x show ?case by simp
qed

lemma merge_distinct: "distinct (map fst (merge l r))"
  by (simp add: merge_def foldl_assign_distinct)

lemma merge_no_proto: "''__proto__'' \<notin> fst ` set (merge l r)"
  unfolding merge_def by (rule foldl_assign_no_proto) simp

lemma own_id: "''__proto__'' \<notin> fst ` set ch \<Longrightarrow> own ch = ch"
  unfolding own_def by (rule filter_True) force

lemma own_append: "own (xs @ ys) = own xs @ own ys"
  by (simp add: own_def)

lemma own_no_proto: "''__proto__'' \<notin> fst ` set (own ch)"
  by (auto simp: own_def)

lemma own_names: "map fst (own ch) = filter (\<lambda>k. k \<noteq> ''__proto__'') (map fst ch)"
  by (induction ch) (auto simp: own_def)

lemma own_distinct: "distinct (map fst ch) \<Longrightarrow> distinct (map fst (own ch))"
  by (simp add: own_names)

lemma own_lookup: "k \<noteq> ''__proto__'' \<Longrightarrow> lookup (own ch) k = lookup ch k"
  by (induction ch) (auto simp: own_def lookup_def)

lemma foldl_assign_own:
  "distinct (map fst (acc @ xs)) \<Longrightarrow>
   foldl (\<lambda>obj (k, v). assign obj k v) acc xs = acc @ own xs"
proof (induction xs arbitrary: acc)
  case Nil
  then show ?case by (simp add: own_def)
next
  case (Cons x xs)
  obtain k v where x: "x = (k, v)" by (cases x)
  show ?case
  proof (cases "k = ''__proto__''")
    case True
    from Cons.prems x have "distinct (map fst (acc @ xs))" by simp
    from Cons.IH [OF this] x True show ?thesis by (simp add: assign_proto own_def)
  next
    case False
    from Cons.prems x have "k \<notin> fst ` set acc" by auto
    with False have "assign acc k v = acc @ [(k, v)]" by (simp add: assign_fresh)
    moreover from Cons.prems x have "distinct (map fst ((acc @ [(k, v)]) @ xs))" by simp
    ultimately show ?thesis using Cons.IH [of "acc @ [(k, v)]"] x False by (simp add: own_def)
  qed
qed


lemma lookup_entry: "distinct (map fst vals) \<Longrightarrow> (k, v) \<in> set vals \<Longrightarrow> lookup vals k = v"
  by (simp add: lookup_def)

lemma lookup_assign: "k \<noteq> ''__proto__'' \<Longrightarrow> lookup (assign ch k v) k = v"
  by (induction ch) (auto simp: lookup_def)

lemma merge_snoc: "merge l [(k, v)] = assign (merge l []) k v"
  by (simp add: merge_def)

text \<open>The loop of the constructor records the own entries of an object it accepts.\<close>

lemma assigned_append:
  "assigned defn vals (ks1 @ ks2) ch =
     (case assigned defn vals ks1 ch of Inl e \<Rightarrow> Inl e | Inr ch' \<Rightarrow> assigned defn vals ks2 ch')"
  by (induction ks1 arbitrary: ch) (auto split: option.splits)

lemma assigned_cong:
  "(\<And>k. k \<in> set ks \<Longrightarrow> lookup vals k = lookup vals' k) \<Longrightarrow>
   assigned defn vals ks ch = assigned defn vals' ks ch"
  by (induction ks arbitrary: ch) (auto split: option.splits)

lemma assigned_result:
  "assigned defn vals (map fst xs) ch = Inr ch' \<Longrightarrow> distinct (map fst vals) \<Longrightarrow>
   set xs \<subseteq> set vals \<Longrightarrow> ch' = foldl (\<lambda>obj (k, v). assign obj k v) ch xs"
proof (induction xs arbitrary: ch)
  case Nil
  then show ?case by simp
next
  case (Cons x xs)
  obtain k v where x: "x = (k, v)" by (cases x)
  with Cons.prems(2,3) have l: "lookup vals k = v" by (intro lookup_entry) auto
  from Cons.prems(1) x l have rest: "assigned defn vals (map fst xs) (assign ch k v) = Inr ch'"
    by (auto split: option.splits)
  from Cons.IH [OF rest Cons.prems(2)] Cons.prems(3) x show ?case by simp
qed

lemma assigned_own:
  assumes "assigned defn vals (map fst vals) [] = Inr ch" and "distinct (map fst vals)"
  shows "ch = own vals"
  using assigned_result [OF assms, of ] foldl_assign_own [of "[]" vals] assms(2) by simp

lemma built_assigned:
  "built defn ch \<longleftrightarrow> distinct (map fst ch) \<and> assigned defn ch (map fst ch) [] = Inr (own ch)"
proof (cases "assigned defn ch (map fst ch) []")
  case (Inl e)
  then show ?thesis by (simp add: built_def constructor_assigned)
next
  case (Inr ch')
  show ?thesis
  proof (cases "distinct (map fst ch)")
    case True
    with Inr assigned_own [of defn ch ch'] have "ch' = own ch" by simp
    with Inr True show ?thesis by (simp add: built_def constructor_assigned)
  next
    case False
    then show ?thesis by (simp add: built_def)
  qed
qed

lemma constructor_built:
  assumes "distinct (map fst vals)" and "snd (new_GeneratedBuilder defn vals h) = Inr b"
  shows "built defn vals \<and> b = length h \<and> fst (new_GeneratedBuilder defn vals h) = h @ [own vals]"
proof -
  from assms(2) obtain ch where r: "assigned defn vals (map fst vals) [] = Inr ch" and b: "b = length h"
    by (auto simp: constructor_assigned split: sum.splits)
  with assms(1) assigned_own [of defn vals ch] have "ch = own vals" by simp
  with r b assms(1) show ?thesis by (simp add: built_assigned constructor_heap)
qed

lemma choose_frame:
  "length (fst (choose_value defn h b p v)) = Suc (length h) \<and>
   (\<forall>a<length h. fst (choose_value defn h b p v) ! a = h ! a)"
  by (simp add: choose_value_def constructor_frame)

text \<open>
  The entry after the entries \<open>pre\<close> is validated against the own entries of \<open>pre\<close>,
  when those are accepted.
\<close>

lemma assigned_prefix:
  assumes "distinct (map fst vals)" and "vals = pre @ (d, w) # post"
  shows "assigned defn vals (map fst vals) [] =
           (case assigned defn pre (map fst pre) [] of
              Inl e \<Rightarrow> Inl e
            | Inr ch \<Rightarrow>
                (case validate defn (own pre) d w of
                   Some e \<Rightarrow> Inl e
                 | None \<Rightarrow> assigned defn vals (map fst post) (assign (own pre) d w)))"
proof -
  from assms have dpre: "distinct (map fst pre)" by auto
  have same: "assigned defn vals (map fst pre) [] = assigned defn pre (map fst pre) []"
  proof (rule assigned_cong)
    fix k assume "k \<in> set (map fst pre)"
    then obtain u where u: "(k, u) \<in> set pre" by auto
    with assms have "lookup vals k = u" by (intro lookup_entry) auto
    moreover from dpre u have "lookup pre k = u" by (intro lookup_entry) auto
    ultimately show "lookup vals k = lookup pre k" by simp
  qed
  from assms have l: "lookup vals d = w" by (intro lookup_entry) auto
  have keys: "map fst vals = map fst pre @ d # map fst post" using assms(2) by simp
  show ?thesis
  proof (cases "assigned defn pre (map fst pre) []")
    case (Inl e)
    with same show ?thesis unfolding keys by (simp add: assigned_append)
  next
    case (Inr ch)
    with dpre assigned_own [of defn pre ch] have "ch = own pre" by simp
    with Inr same l show ?thesis
      unfolding keys by (simp add: assigned_append split: option.splits)
  qed
qed

lemma built_snoc:
  assumes "distinct (map fst (pre @ [(d, w)]))"
  shows "built defn (pre @ [(d, w)]) \<longleftrightarrow> built defn pre \<and> validate defn (own pre) d w = None"
proof -
  from assms have dpre: "distinct (map fst pre)" by simp
  have "(\<exists>ch. assigned defn (pre @ [(d, w)]) (map fst (pre @ [(d, w)])) [] = Inr ch) \<longleftrightarrow>
        (\<exists>ch. assigned defn pre (map fst pre) [] = Inr ch) \<and> validate defn (own pre) d w = None"
    unfolding assigned_prefix [OF assms refl, of defn]
    by (auto split: sum.splits option.splits)
  moreover have "built defn xs \<longleftrightarrow> (\<exists>ch. assigned defn xs (map fst xs) [] = Inr ch)"
    if "distinct (map fst xs)" for xs
    using that by (auto simp: built_def constructor_assigned split: sum.splits)
  ultimately show ?thesis using assms dpre by simp
qed

lemma built_entries:
  "distinct (map fst vals) \<Longrightarrow>
   built defn vals \<longleftrightarrow>
     (\<forall>i<length vals.
        validate defn (own (take i vals)) (fst (vals ! i)) (snd (vals ! i)) = None)"
proof (induction vals rule: rev_induct)
  case Nil
  show ?case by (simp add: built_def new_GeneratedBuilder_def)
next
  case (snoc x vals)
  obtain d w where x: "x = (d, w)" by (cases x)
  from snoc.prems have dv: "distinct (map fst vals)" by simp
  have "(\<forall>i<length (vals @ [x]).
           validate defn (own (take i (vals @ [x]))) (fst ((vals @ [x]) ! i))
             (snd ((vals @ [x]) ! i)) = None) \<longleftrightarrow>
        (\<forall>i<length vals. validate defn (own (take i vals)) (fst (vals ! i)) (snd (vals ! i)) = None)
          \<and> validate defn (own vals) d w = None"
    using x by (auto simp: less_Suc_eq nth_append)
  with snoc.IH [OF dv] built_snoc [of vals d w defn] snoc.prems x show ?case by simp
qed

lemma constructor_entry_fails:
  assumes "distinct (map fst vals)" and "vals = pre @ (d, w) # post"
    and "validate defn (own pre) d w = Some e"
  shows "\<exists>e'. snd (new_GeneratedBuilder defn vals h) = Inl e'"
    and "built defn pre \<Longrightarrow> snd (new_GeneratedBuilder defn vals h) = Inl e"
  using assigned_prefix [OF assms(1,2), of defn] assms(3)
  by (auto simp: constructor_assigned built_assigned split: sum.splits)

lemma validate_unreachable:
  "fields defn ch = Inr reachable \<Longrightarrow> field \<notin> set reachable \<Longrightarrow>
   validate defn ch field v = Some (InvalidField field)"
  by (simp add: validate_def)


text \<open>What the constructor and \<^verbatim>\<open>choose\<close> return is a builder with a ChoiceSet.\<close>

lemma assigned_skip:
  "assigned defn vals ks ch = Inr ch' \<Longrightarrow>
   assigned defn vals (filter (\<lambda>k. k \<noteq> ''__proto__'') ks) ch = Inr ch'"
  by (induction ks arbitrary: ch) (auto simp: assign_proto split: option.splits)

lemma constructor_choiceSet:
  assumes "distinct (map fst vals)" and "snd (new_GeneratedBuilder defn vals h) = Inr b"
  shows "choiceSet defn (fst (new_GeneratedBuilder defn vals h) ! b)"
proof -
  from constructor_built [OF assms] have bv: "built defn vals" and b: "b = length h"
    and heap: "fst (new_GeneratedBuilder defn vals h) = h @ [own vals]"
    by simp_all
  from bv have "assigned defn vals (map fst vals) [] = Inr (own vals)"
    by (simp add: built_assigned)
  from assigned_skip [OF this] have "assigned defn vals (map fst (own vals)) [] = Inr (own vals)"
    by (simp add: own_names)
  moreover have "assigned defn vals (map fst (own vals)) [] =
                 assigned defn (own vals) (map fst (own vals)) []"
  proof (rule assigned_cong)
    fix k assume "k \<in> set (map fst (own vals))"
    then have "k \<noteq> ''__proto__''" by (auto simp: own_def)
    then show "lookup vals k = lookup (own vals) k" by (simp add: own_lookup)
  qed
  ultimately have "assigned defn (own vals) (map fst (own vals)) [] = Inr (own (own vals))"
    by (simp add: own_id own_no_proto)
  with assms(1) have "built defn (own vals)" by (simp add: built_assigned own_distinct)
  with b heap show ?thesis by (simp add: choiceSet_def own_no_proto)
qed

lemma choose_built:
  assumes "snd (choose_value defn h b p v) = Inr b2"
  shows "choiceSet defn (fst (choose_value defn h b p v) ! b2)"
proof -
  let ?vals = "merge (h ! b) [(p, v)]"
  from assms have "snd (new_GeneratedBuilder defn ?vals h) = Inr b2"
    by (simp add: choose_value_def)
  from constructor_choiceSet [OF merge_distinct this] show ?thesis
    by (simp add: choose_value_def)
qed

section \<open>Facts about the enumeration of fields\<close>

text \<open>The answer of \<^verbatim>\<open>ideaFn\<close> starts with its own path and holds the answer for a chosen option.\<close>

lemma ideaFn_head:
  "ideaFn ch node bc = Inr r \<Longrightarrow> \<exists>subtree. r = join ''.'' bc # subtree"
  by (cases node) (auto split: sum.splits)

lemma ideaFn_children_chunk:
  assumes "ideaFn_children ch fs bc = Inr paths"
    and "(key, FieldSpec (Enumerated m) req vld) \<in> set fs"
    and "lookup ch (join ''.'' (bc @ [key])) \<noteq> VUndefined"
    and "map_of m (property_key (lookup ch (join ''.'' (bc @ [key])))) = Some sub"
  shows "\<exists>before r after. ideaFn ch sub (bc @ [key]) = Inr r \<and> paths = before @ r @ after"
  using assms
proof (induction fs arbitrary: paths)
  case Nil
  then show ?case by simp
next
  case (Cons f fs)
  obtain key' opts' req' vld' where f: "f = (key', FieldSpec opts' req' vld')"
    by (cases f, rename_tac k s, case_tac s) auto
  from Cons.prems(1) f obtain r rs where
    r: "(case opts' of
           Literal l \<Rightarrow> Inr [join ''.'' (bc @ [key'])]
         | Enumerated m' \<Rightarrow>
             if lookup ch (join ''.'' (bc @ [key'])) = VUndefined then Inr [join ''.'' (bc @ [key'])]
             else (case map_of m' (property_key (lookup ch (join ''.'' (bc @ [key'])))) of
                     None \<Rightarrow> Inl TypeError
                   | Some config \<Rightarrow> ideaFn ch config (bc @ [key']))) = Inr r"
    and rs: "ideaFn_children ch fs bc = Inr rs"
    and paths: "paths = r @ rs"
    by (auto simp: Let_def split: sum.splits)
  show ?case
  proof (cases "(key, FieldSpec (Enumerated m) req vld) = f")
    case True
    with f r Cons.prems(3,4) have "ideaFn ch sub (bc @ [key]) = Inr r" by auto
    with paths have "ideaFn ch sub (bc @ [key]) = Inr r \<and> paths = [] @ r @ rs" by simp
    then show ?thesis by blast
  next
    case False
    with Cons.prems(2) have "(key, FieldSpec (Enumerated m) req vld) \<in> set fs" by simp
    from Cons.IH [OF rs this Cons.prems(3,4)] obtain before r' after where
      "ideaFn ch sub (bc @ [key]) = Inr r'" "rs = before @ r' @ after" by blast
    with paths have "ideaFn ch sub (bc @ [key]) = Inr r' \<and> paths = (r @ before) @ r' @ after"
      by simp
    then show ?thesis by blast
  qed
qed

text \<open>Recording more choices only adds fields, as long as the enumeration does not raise.\<close>

lemma ideaFn_mono:
  "\<forall>k. lookup ch k \<noteq> VUndefined \<longrightarrow> lookup ch' k = lookup ch k \<Longrightarrow>
   ideaFn ch node bc = Inr xs \<Longrightarrow> ideaFn ch' node bc = Inr xs' \<Longrightarrow> set xs \<subseteq> set xs'"
  "\<forall>k. lookup ch k \<noteq> VUndefined \<longrightarrow> lookup ch' k = lookup ch k \<Longrightarrow>
   ideaFn_children ch fs bc = Inr ys \<Longrightarrow> ideaFn_children ch' fs bc = Inr ys' \<Longrightarrow>
   set ys \<subseteq> set ys'"
proof (induction ch node bc and ch fs bc arbitrary: xs xs' and ys ys'
       rule: ideaFn_ideaFn_children.induct)
  case (1 ch fs breadcrumb)
  from "1.prems"(2,3) obtain rs rs' where
    a: "ideaFn_children ch fs breadcrumb = Inr rs" "xs = join ''.'' breadcrumb # rs"
    and b: "ideaFn_children ch' fs breadcrumb = Inr rs'" "xs' = join ''.'' breadcrumb # rs'"
    by (auto split: sum.splits)
  from "1.IH" [OF "1.prems"(1) a(1) b(1)] a(2) b(2) show ?case by auto
next
  case (2 ch breadcrumb)
  then show ?case by simp
next
  case (3 ch key opts req vld rest breadcrumb)
  note ext = "3.prems"(1)
  let ?p = "join ''.'' (breadcrumb @ [key])"
  let ?child = "\<lambda>c. (case opts of
           Literal l \<Rightarrow> Inr [?p]
         | Enumerated m \<Rightarrow>
             if lookup c ?p = VUndefined then Inr [?p]
             else (case map_of m (property_key (lookup c ?p)) of
                     None \<Rightarrow> Inl TypeError
                   | Some config \<Rightarrow> ideaFn c config (breadcrumb @ [key])))"
  from "3.prems"(2) obtain r rs where r: "?child ch = Inr r"
    and rs: "ideaFn_children ch rest breadcrumb = Inr rs" and ys: "ys = r @ rs"
    by (auto simp: Let_def split: sum.splits)
  from "3.prems"(3) obtain r' rs' where r': "?child ch' = Inr r'"
    and rs': "ideaFn_children ch' rest breadcrumb = Inr rs'" and ys': "ys' = r' @ rs'"
    by (auto simp: Let_def split: sum.splits)
  have tail: "set rs \<subseteq> set rs'"
    using "3.IH"(2) [OF refl refl r ext rs rs'] .
  have head: "set r \<subseteq> set r'"
  proof (cases opts)
    case (Literal l)
    with r r' show ?thesis by simp
  next
    case (Enumerated m)
    show ?thesis
    proof (cases "lookup ch ?p = VUndefined")
      case True
      with Enumerated r have r1: "r = [?p]" by simp
      show ?thesis
      proof (cases "lookup ch' ?p = VUndefined")
        case True
        with Enumerated r' r1 show ?thesis by simp
      next
        case False
        with Enumerated r' obtain config where
          "ideaFn ch' config (breadcrumb @ [key]) = Inr r'"
          by (auto split: option.splits)
        from ideaFn_head [OF this] r1 show ?thesis by auto
      qed
    next
      case False
      with ext have same: "lookup ch' ?p = lookup ch ?p" by blast
      from Enumerated r False obtain config where
        m: "map_of m (property_key (lookup ch ?p)) = Some config"
        and c: "ideaFn ch config (breadcrumb @ [key]) = Inr r"
        by (auto split: option.splits)
      from Enumerated r' False same m have c': "ideaFn ch' config (breadcrumb @ [key]) = Inr r'"
        by simp
      from "3.IH"(1) [OF refl refl Enumerated False m ext c c'] show ?thesis .
    qed
  qed
  from head tail ys ys' show ?case by auto
qed

lemma fields_children: "fields (SchemaNode fs) ch = ideaFn_children ch fs []"
  by (simp add: fields_def split: sum.splits)

text \<open>
  In a schema without dots in its names, a field \<^verbatim>\<open>a.k\<close> is enumerated only when a
  choice is recorded for \<^verbatim>\<open>a\<close>.
\<close>

lemma join_snoc: "ks \<noteq> [] \<Longrightarrow> join sep (ks @ [k]) = join sep ks @ sep @ k"
  by (induction sep ks rule: join.induct) auto

lemma takeWhile_until: "c \<notin> set xs \<Longrightarrow> takeWhile (\<lambda>x. x \<noteq> c) (xs @ c # ys) = xs"
  by (induction xs) auto

lemma last_dot:
  assumes "u @ ''.'' @ w = a @ ''.'' @ k" and "CHR ''.'' \<notin> set w" and "CHR ''.'' \<notin> set k"
  shows "u = a"
proof -
  from assms(1) have "rev w @ CHR ''.'' # rev u = rev k @ CHR ''.'' # rev a"
    by (metis append_Cons append_Nil append_assoc rev.simps(2) rev_append)
  moreover have "takeWhile (\<lambda>c. c \<noteq> CHR ''.'') (rev w @ CHR ''.'' # rev u) = rev w"
    using assms(2) by (intro takeWhile_until) simp
  moreover have "takeWhile (\<lambda>c. c \<noteq> CHR ''.'') (rev k @ CHR ''.'' # rev a) = rev k"
    using assms(3) by (intro takeWhile_until) simp
  ultimately have "w = k" by simp
  with assms(1) show ?thesis by simp
qed

lemma fieldNames_option:
  "map_of m c = Some sub \<Longrightarrow> set (fieldNames sub) \<subseteq> set (fieldNames_options m)"
  by (induction m) (auto split: if_splits)

lemma ideaFn_parent:
  "list_all (\<lambda>name. CHR ''.'' \<notin> set name) (fieldNames node) \<Longrightarrow>
   ideaFn ch node bc = Inr xs \<Longrightarrow> x \<in> set xs \<Longrightarrow>
   x = join ''.'' bc \<or>
   (\<exists>ks k. x = join ''.'' (bc @ ks @ [k]) \<and> CHR ''.'' \<notin> set k \<and>
      (ks \<noteq> [] \<longrightarrow> lookup ch (join ''.'' (bc @ ks)) \<noteq> VUndefined))"
  "list_all (\<lambda>name. CHR ''.'' \<notin> set name) (fieldNames_fields fs) \<Longrightarrow>
   ideaFn_children ch fs bc = Inr ys \<Longrightarrow> x \<in> set ys \<Longrightarrow>
   (\<exists>ks k. x = join ''.'' (bc @ ks @ [k]) \<and> CHR ''.'' \<notin> set k \<and>
      (ks \<noteq> [] \<longrightarrow> lookup ch (join ''.'' (bc @ ks)) \<noteq> VUndefined))"
proof (induction ch node bc and ch fs bc arbitrary: xs and ys
       rule: ideaFn_ideaFn_children.induct)
  case (1 ch fs breadcrumb)
  from "1.prems"(2) obtain rs where
    a: "ideaFn_children ch fs breadcrumb = Inr rs" "xs = join ''.'' breadcrumb # rs"
    by (auto split: sum.splits)
  from "1.prems"(1) have wf: "list_all (\<lambda>name. CHR ''.'' \<notin> set name) (fieldNames_fields fs)"
    by simp
  show ?case
  proof (cases "x = join ''.'' breadcrumb")
    case True
    then show ?thesis by simp
  next
    case False
    with "1.prems"(3) a(2) have "x \<in> set rs" by simp
    from "1.IH" [OF wf a(1) this] show ?thesis by simp
  qed
next
  case (2 ch breadcrumb)
  then show ?case by simp
next
  case (3 ch key opts req vld rest breadcrumb)
  let ?p = "join ''.'' (breadcrumb @ [key])"
  from "3.prems"(1) have key: "CHR ''.'' \<notin> set key"
    and wfrest: "list_all (\<lambda>name. CHR ''.'' \<notin> set name) (fieldNames_fields rest)"
    by simp_all
  from "3.prems"(2) obtain r rs where
    r: "(case opts of
           Literal l \<Rightarrow> Inr [?p]
         | Enumerated m \<Rightarrow>
             if lookup ch ?p = VUndefined then Inr [?p]
             else (case map_of m (property_key (lookup ch ?p)) of
                     None \<Rightarrow> Inl TypeError
                   | Some config \<Rightarrow> ideaFn ch config (breadcrumb @ [key]))) = Inr r"
    and rs: "ideaFn_children ch rest breadcrumb = Inr rs" and ys: "ys = r @ rs"
    by (auto simp: Let_def split: sum.splits)
  have own: "\<exists>ks k. ?p = join ''.'' (breadcrumb @ ks @ [k]) \<and> CHR ''.'' \<notin> set k \<and>
      (ks \<noteq> [] \<longrightarrow> lookup ch (join ''.'' (breadcrumb @ ks)) \<noteq> VUndefined)"
    using key by (intro exI [of _ "[]"] exI [of _ key]) simp
  from "3.prems"(3) ys consider "x \<in> set r" | "x \<in> set rs" by auto
  then show ?case
  proof cases
    case 2
    from "3.IH"(2) [OF refl refl r wfrest rs 2] show ?thesis .
  next
    case 1
    show ?thesis
    proof (cases "x = ?p")
      case True
      with own show ?thesis by simp
    next
      case False
      with 1 r obtain m config where opts: "opts = Enumerated m"
        and chosen: "lookup ch ?p \<noteq> VUndefined"
        and m: "map_of m (property_key (lookup ch ?p)) = Some config"
        and c: "ideaFn ch config (breadcrumb @ [key]) = Inr r"
        by (cases opts) (auto split: if_splits option.splits)
      from "3.prems"(1) opts fieldNames_option [OF m]
      have wfc: "list_all (\<lambda>name. CHR ''.'' \<notin> set name) (fieldNames config)"
        by (auto simp: list_all_iff)
      from "3.IH"(1) [OF refl refl opts chosen m wfc c 1] False obtain ks k where
        x: "x = join ''.'' ((breadcrumb @ [key]) @ ks @ [k])" and k: "CHR ''.'' \<notin> set k"
        and anc: "ks \<noteq> [] \<longrightarrow> lookup ch (join ''.'' ((breadcrumb @ [key]) @ ks)) \<noteq> VUndefined"
        by blast
      have "lookup ch (join ''.'' (breadcrumb @ (key # ks))) \<noteq> VUndefined"
      proof (cases "ks = []")
        case True
        with chosen show ?thesis by simp
      next
        case False
        with anc show ?thesis by simp
      qed
      with x k have "x = join ''.'' (breadcrumb @ (key # ks) @ [k]) \<and> CHR ''.'' \<notin> set k \<and>
        (key # ks \<noteq> [] \<longrightarrow> lookup ch (join ''.'' (breadcrumb @ (key # ks))) \<noteq> VUndefined)"
        by simp
      then show ?thesis by blast
    qed
  qed
qed

lemma descendant_needs_ancestor:
  assumes "dotFree defn" and "fields defn ch = Inr reachable"
    and "a @ ''.'' @ k \<in> set reachable" and "CHR ''.'' \<notin> set k"
  shows "lookup ch a \<noteq> VUndefined"
proof -
  obtain fs where defn: "defn = SchemaNode fs" by (cases defn)
  from assms(1) defn have wf: "list_all (\<lambda>name. CHR ''.'' \<notin> set name) (fieldNames_fields fs)"
    by (simp add: dotFree_def)
  from assms(2) defn have "ideaFn_children ch fs [] = Inr reachable"
    by (simp add: fields_children)
  from ideaFn_parent(2) [OF wf this assms(3)] obtain ks k' where
    x: "a @ ''.'' @ k = join ''.'' (ks @ [k'])" and k': "CHR ''.'' \<notin> set k'"
    and anc: "ks \<noteq> [] \<longrightarrow> lookup ch (join ''.'' ks) \<noteq> VUndefined"
    by auto
  show ?thesis
  proof (cases "ks = []")
    case True
    with x k' show ?thesis by auto
  next
    case False
    with x have "join ''.'' ks @ ''.'' @ k' = a @ ''.'' @ k" by (simp add: join_snoc)
    from last_dot [OF this k' assms(4)] anc False show ?thesis by simp
  qed
qed

text \<open>Every field of a node is listed under the node, and the fields of a chosen option
  under the field.\<close>

lemma ideaFn_children_lists:
  "ideaFn_children ch fs bc = Inr paths \<Longrightarrow> (k, s) \<in> set fs \<Longrightarrow>
   join ''.'' (bc @ [k]) \<in> set paths"
proof (induction fs arbitrary: paths)
  case Nil
  then show ?case by simp
next
  case (Cons f fs)
  obtain key' opts' req' vld' where f: "f = (key', FieldSpec opts' req' vld')"
    by (cases f, rename_tac k s, case_tac s) auto
  from Cons.prems(1) f obtain r rs where
    r: "(case opts' of
           Literal l \<Rightarrow> Inr [join ''.'' (bc @ [key'])]
         | Enumerated m' \<Rightarrow>
             if lookup ch (join ''.'' (bc @ [key'])) = VUndefined then Inr [join ''.'' (bc @ [key'])]
             else (case map_of m' (property_key (lookup ch (join ''.'' (bc @ [key'])))) of
                     None \<Rightarrow> Inl TypeError
                   | Some config \<Rightarrow> ideaFn ch config (bc @ [key']))) = Inr r"
    and rs: "ideaFn_children ch fs bc = Inr rs"
    and paths: "paths = r @ rs"
    by (auto simp: Let_def split: sum.splits)
  show ?case
  proof (cases "(k, s) = f")
    case True
    with f have k: "key' = k" by simp
    from r have "\<exists>subtree. r = join ''.'' (bc @ [key']) # subtree"
      by (auto split: optionspace.splits if_splits option.splits dest: ideaFn_head)
    with k paths show ?thesis by auto
  next
    case False
    with Cons.prems(2) have "(k, s) \<in> set fs" by auto
    from Cons.IH [OF rs this] paths show ?thesis by simp
  qed
qed

lemma chosen_option_reaches:
  assumes "fields defn ch = Inr reachable"
    and "(a, FieldSpec (Enumerated m) req vld) \<in> set (node_fields defn)"
    and "lookup ch a = VString c" and "map_of m c = Some sub" and "(k, s) \<in> set (node_fields sub)"
  shows "a @ ''.'' @ k \<in> set reachable"
proof -
  obtain fs where defn: "defn = SchemaNode fs" by (cases defn)
  obtain fs' where sub: "sub = SchemaNode fs'" by (cases sub)
  from assms(1) defn have c: "ideaFn_children ch fs [] = Inr reachable"
    by (simp add: fields_children)
  from assms(2) defn have m: "(a, FieldSpec (Enumerated m) req vld) \<in> set fs" by simp
  from assms(3) have l: "lookup ch (join ''.'' ([] @ [a])) \<noteq> VUndefined" by simp
  from assms(3,4) have o: "map_of m (property_key (lookup ch (join ''.'' ([] @ [a])))) = Some sub"
    by simp
  from ideaFn_children_chunk [OF c m l o] obtain before r after where
    r: "ideaFn ch sub ([] @ [a]) = Inr r" and split: "reachable = before @ r @ after"
    by blast
  from r sub obtain rs where rs: "ideaFn_children ch fs' [a] = Inr rs" and "r = join ''.'' [a] # rs"
    by (auto split: sum.splits)
  moreover from ideaFn_children_lists [OF rs, of k s] assms(5) sub
  have "a @ ''.'' @ k \<in> set rs" by simp
  ultimately show ?thesis using split by simp
qed







section \<open>Facts about \<^verbatim>\<open>missing()\<close>\<close>

lemma findMissingFor_undefined:
  "findMissingFor fuel defn ch work = Some (Inr ps) \<Longrightarrow> p \<in> set ps \<Longrightarrow> undefinedChoice ch p"
proof (induction fuel defn ch work arbitrary: ps rule: findMissingFor.induct)
  case (1 fuel defn ch)
  then show ?case by simp
next
  case (2 defn ch choicePath rest)
  then show ?case by simp
next
  case (3 fuel defn ch choicePath rest)
  from "3.prems"(1) obtain nonLiteral deeper others where
    nl: "nonLiteralChoices (levelFields defn ch choicePath) = Inr nonLiteral"
    and d: "findMissingFor fuel defn ch (madeChoices ch choicePath nonLiteral) = Some (Inr deeper)"
    and r: "findMissingFor (Suc fuel) defn ch rest = Some (Inr others)"
    and ps: "ps = missingChoices defn ch choicePath @ deeper @ others"
    by (auto split: sum.splits option.splits)
  from "3.prems"(2) ps consider
    "p \<in> set (missingChoices defn ch choicePath)" | "p \<in> set deeper" | "p \<in> set others"
    by auto
  then show ?case
  proof cases
    case 1
    then show ?thesis by (simp add: missingChoices_def)
  next
    case 2
    with "3.IH"(1) [OF nl d] show ?thesis .
  next
    case 3
    with "3.IH"(2) [OF nl d refl r] show ?thesis .
  qed
qed

text \<open>Rules that evaluate the methods on a concrete schema and concrete choices.\<close>

lemmas eval_rules =
  fields_def lookup_def choiceConfig_def options_def get_def requires_def
  missing_def levelFields_def addBreadcrumb_def missingChoices_def madeChoices_def
  undefinedChoice_def literalChoice_def OptionLiterals_def
  validate_def new_GeneratedBuilder_def choose_value_def merge_def built_def
  governing_def respectsSchema_def positive_def own_def choiceSet_def

section \<open>The scenario of the specification\<close>

text \<open>
  The model answers the scenario of section 8 of the specification as the
  specification says, \<^verbatim>\<open>fields()\<close> apart (see claim C1): \<^verbatim>\<open>requires\<close> and \<^verbatim>\<open>missing\<close> on the
  empty builder, \<^verbatim>\<open>missing\<close> after \<^verbatim>\<open>mage\<close> is chosen and after the spell is chosen, and
  the two failing choices.
\<close>

lemma scenario_answers:
  "requires scenario = [''name'', ''class'']"
  "missing (Suc (Suc 0)) scenario [] = Some (Inr [''name'', ''class''])"
  "missing (Suc (Suc 0)) scenario [(''class'', VString ''mage'')] =
     Some (Inr [''name'', ''class.spell''])"
  "missing (Suc (Suc 0)) scenario
     [(''class'', VString ''mage''), (''class.spell'', VString ''fireball'')] = Some (Inr [''name''])"
  "snd (choose_value scenario [[]] 0 ''class'' (VString ''rogue'')) =
     Inl (InvalidChoice ''class'' (VString ''rogue'') (Some ''must be one of [warrior, mage]''))"
  "snd (choose_value scenario [[]] 0 ''unknownField'' (VNumber 1)) =
     Inl (InvalidField ''unknownField'')"
  by (simp_all add: eval_rules scenario_def)

section \<open>What \<^verbatim>\<open>fields()\<close> lists for a chosen field\<close>

text \<open>
  Claim C1 says that the path of an enumerated field with a recorded choice is replaced
  in \<^verbatim>\<open>fields()\<close> by the paths of the chosen option's subtree and is not listed itself,
  so that the scenario answers \<^verbatim>\<open>["name", "class.spell"]\<close> after \<^verbatim>\<open>mage\<close> is chosen for
  \<^verbatim>\<open>class\<close>. The code lists \<^verbatim>\<open>class\<close> as well: every call of \<^verbatim>\<open>ideaFn\<close> puts its own path
  first, and only the path of the root is dropped.
\<close>

theorem fields_replaces_chosen_field_counterexample:
  "choose_value scenario [[]] 0 ''class'' (VString ''mage'') =
     ([[], [(''class'', VString ''mage'')]], Inr 1) \<and>
   fields scenario [(''class'', VString ''mage'')] = Inr [''name'', ''class'', ''class.spell''] \<and>
   fields scenario [(''class'', VString ''mage'')] \<noteq> Inr [''name'', ''class.spell''] \<and>
   ''class'' \<in> set [''name'', ''class'', ''class.spell'']"
  by (simp add: eval_rules scenario_def)

text \<open>
  Claim C1, amended. For a field \<open>key\<close> of a node that \<^verbatim>\<open>ideaFn\<close> visits with breadcrumb
  \<open>breadcrumb\<close>, with an option map \<open>m\<close> and a recorded choice that is one of its options,
  the answer holds the path \<open>p\<close> of the field followed at once by the paths of the chosen
  option's subtree, where \<open>p\<close> alone would stand without the choice. At the root this
  is the answer of \<^verbatim>\<open>fields()\<close>.
\<close>

theorem fields_keeps_chosen_field:
  assumes "ideaFn ch (SchemaNode fs) breadcrumb = Inr paths"
    and "(key, FieldSpec (Enumerated m) req vld) \<in> set fs"
    and "p = join ''.'' (breadcrumb @ [key])"
    and "lookup ch p \<noteq> VUndefined"
    and "map_of m (property_key (lookup ch p)) = Some sub"
  shows "\<exists>before subtree after.
           ideaFn ch sub (breadcrumb @ [key]) = Inr (p # subtree) \<and>
           paths = join ''.'' breadcrumb # before @ p # subtree @ after \<and>
           (breadcrumb = [] \<longrightarrow> fields (SchemaNode fs) ch = Inr (before @ p # subtree @ after))"
proof -
  from assms(1) obtain rs where rs: "ideaFn_children ch fs breadcrumb = Inr rs"
    and paths: "paths = join ''.'' breadcrumb # rs"
    by (auto split: sum.splits)
  from ideaFn_children_chunk [OF rs assms(2)] assms(3,4,5) obtain before r after where
    r: "ideaFn ch sub (breadcrumb @ [key]) = Inr r" and split: "rs = before @ r @ after"
    by blast
  from ideaFn_head [OF r] assms(3) obtain subtree where "r = p # subtree" by blast
  with r split paths assms(1) have
    "ideaFn ch sub (breadcrumb @ [key]) = Inr (p # subtree) \<and>
     paths = join ''.'' breadcrumb # before @ p # subtree @ after \<and>
     (breadcrumb = [] \<longrightarrow> fields (SchemaNode fs) ch = Inr (before @ p # subtree @ after))"
    by (auto simp: fields_def)
  then show ?thesis by blast
qed

theorem fields_keeps_chosen_field_witness:
  "lookup [(''class'', VString ''mage'')] ''class'' \<noteq> VUndefined \<and>
   (\<exists>before subtree after.
      ideaFn [(''class'', VString ''mage'')]
        (SchemaNode [(''spell'', FieldSpec (Literal STRING) (Some True) None)]) [''class'']
        = Inr (''class'' # subtree) \<and>
      fields scenario [(''class'', VString ''mage'')] = Inr (before @ ''class'' # subtree @ after))"
proof -
  let ?ch = "[(''class'', VString ''mage'')]"
  let ?mage = "SchemaNode [(''spell'', FieldSpec (Literal STRING) (Some True) None)]"
  let ?m = "[(''warrior'', SchemaNode []), (''mage'', ?mage)]"
  let ?fs = "[(''name'', FieldSpec (Literal STRING) (Some True) None),
              (''class'', FieldSpec (Enumerated ?m) (Some True) None)]"
  have 1: "ideaFn ?ch (SchemaNode ?fs) [] = Inr [[], ''name'', ''class'', ''class.spell'']"
    by (simp add: lookup_def)
  have 2: "(''class'', FieldSpec (Enumerated ?m) (Some True) None) \<in> set ?fs" by simp
  have 3: "''class'' = join ''.'' ([] @ [''class''])" by simp
  have 4: "lookup ?ch ''class'' \<noteq> VUndefined" by (simp add: lookup_def)
  have 5: "map_of ?m (property_key (lookup ?ch ''class'')) = Some ?mage" by (simp add: lookup_def)
  from fields_keeps_chosen_field [OF 1 2 3 4 5] obtain before subtree after where
    "ideaFn ?ch ?mage ([] @ [''class'']) = Inr (''class'' # subtree)"
    "fields (SchemaNode ?fs) ?ch = Inr (before @ ''class'' # subtree @ after)"
    by auto
  with 4 show ?thesis unfolding scenario_def by auto
qed

section \<open>Queries on the choices of a builder\<close>

text \<open>
  Claim C2 says that \<^verbatim>\<open>fields()\<close>, \<^verbatim>\<open>missing()\<close>, \<^verbatim>\<open>options(path)\<close>, \<^verbatim>\<open>requires()\<close> and
  \<^verbatim>\<open>get(path)\<close> never raise on a builder made by the constructor and \<^verbatim>\<open>choose\<close>. On the
  schema \<open>wizard\<close> the constructor accepts the choices \<open>wizard_choices\<close>, which are
  also what four calls of \<^verbatim>\<open>choose\<close> build, and \<^verbatim>\<open>fields()\<close> and \<^verbatim>\<open>missing()\<close> raise a
  TypeError on them: \<^verbatim>\<open>_choiceConfig\<close> follows \<^verbatim>\<open>this.choices['weapon']\<close>, the choice of the
  root field, where the ancestor of \<^verbatim>\<open>class.weapon.core\<close> is \<^verbatim>\<open>class.weapon\<close>, so the value
  is validated as a string although the field, under \<^verbatim>\<open>class.weapon = staff\<close>, has the
  option map \<^verbatim>\<open>{phoenix}\<close>.
\<close>

theorem queries_raise_on_built_choices:
  "built wizard wizard_choices \<and>
   choose_value wizard
     [[(''class'', VString ''mage''), (''class.weapon'', VString ''staff''),
       (''weapon'', VString ''wand'')]] 0 ''class.weapon.core'' (VString ''hello'') =
     ([[(''class'', VString ''mage''), (''class.weapon'', VString ''staff''),
        (''weapon'', VString ''wand'')], wizard_choices], Inr 1) \<and>
   fields wizard wizard_choices = Inl TypeError \<and>
   missing (Suc (Suc (Suc (Suc 0)))) wizard wizard_choices = Some (Inl TypeError)"
  by (simp add: eval_rules wizard_def wizard_choices_def)

section \<open>Choosing one of the listed options\<close>




section \<open>The invariant of the recorded choices\<close>

text \<open>
  Claim C4 says that in the choices of every builder each recorded path names a field
  through the choices of its ancestors, and its value fits the options and the
  validation predicate of that field. The choices \<open>wizard_choices\<close> are those of a
  builder, and \<^verbatim>\<open>class.weapon.core\<close> holds \<^verbatim>\<open>"hello"\<close> where the field has the one option
  \<^verbatim>\<open>phoenix\<close>; \<^verbatim>\<open>options\<close>, which resolves the path with \<^verbatim>\<open>_choiceConfig\<close>, answers the
  symbol STRING for it, and \<^verbatim>\<open>fields()\<close>, which follows \<^verbatim>\<open>class.weapon = staff\<close>, finds no
  option \<^verbatim>\<open>hello\<close> and raises.
\<close>

theorem accepted_choice_outside_option_map:
  "built wizard wizard_choices \<and>
   lookup wizard_choices ''class.weapon'' = VString ''staff'' \<and>
   lookup wizard_choices ''class.weapon.core'' = VString ''hello'' \<and>
   governing wizard wizard_choices ''class.weapon.core'' =
     Some (FieldSpec (Enumerated [(''phoenix'', SchemaNode [])]) None None) \<and>
   options wizard wizard_choices ''class.weapon.core'' = OSymbol STRING \<and>
   fields wizard wizard_choices = Inl TypeError \<and>
   \<not> respectsSchema wizard wizard_choices"
  by (simp add: eval_rules wizard_def wizard_choices_def)

section \<open>A failed choice changes nothing\<close>

text \<open>
  Claim C5 says that when validation fails, \<^verbatim>\<open>choose\<close> (and likewise the constructor)
  raises InvalidField or InvalidChoice and leaves the choices of the builder as they
  were. The choices are left as they were, but the error is neither of the two in the
  builders below. In \<open>deep\<close>, after \<^verbatim>\<open>class = mage\<close> and \<^verbatim>\<open>class.weapon = staff\<close>, the path
  \<^verbatim>\<open>class.weapon.core\<close> is a field with the one option \<^verbatim>\<open>phoenix\<close>, and choosing
  \<^verbatim>\<open>dragon\<close> for it raises a TypeError, in \<^verbatim>\<open>choose\<close> and in the constructor:
  \<^verbatim>\<open>_choiceConfig\<close> follows \<^verbatim>\<open>this.choices['weapon']\<close>, which is \<^verbatim>\<open>undefined\<close>, finds nothing,
  and the constructor reads \<^verbatim>\<open>options\<close> of \<^verbatim>\<open>undefined\<close>. In \<open>wizard\<close>, on the builder
  with the choices \<open>wizard_choices\<close>, choosing a value for the unknown field \<^verbatim>\<open>zzz\<close>
  raises a TypeError, since \<^verbatim>\<open>fields()\<close> raises before the field is looked for.
\<close>

theorem failed_choice_raises_type_error:
  "built deep deep_choices \<and>
   fields deep deep_choices = Inr [''class'', ''class.weapon'', ''class.weapon.core''] \<and>
   governing deep deep_choices ''class.weapon.core'' =
     Some (FieldSpec (Enumerated [(''phoenix'', SchemaNode [])]) None None) \<and>
   validate deep deep_choices ''class.weapon.core'' (VString ''dragon'') = Some TypeError \<and>
   choose_value deep [deep_choices] 0 ''class.weapon.core'' (VString ''dragon'') =
     ([deep_choices, deep_choices], Inl TypeError) \<and>
   new_GeneratedBuilder deep (deep_choices @ [(''class.weapon.core'', VString ''dragon'')]) [] =
     ([deep_choices], Inl TypeError) \<and>
   built wizard wizard_choices \<and>
   choose_value wizard [wizard_choices] 0 ''zzz'' (VNumber 1) =
     ([wizard_choices, wizard_choices], Inl TypeError)"
  by (simp add: eval_rules deep_def deep_choices_def wizard_def wizard_choices_def)

section \<open>The receiver of a choice is not changed\<close>

text \<open>
  Claim C6. When \<^verbatim>\<open>b2 = b1.choose(p, v)\<close> succeeds, \<^verbatim>\<open>b1.get(p)\<close> answers afterwards what
  it answered before, and \<^verbatim>\<open>b1\<close> and \<^verbatim>\<open>b2\<close> are independent builders: an operation on
  one does not affect the queries of the other.

  The new builder is a new object of the heap that holds the merged choices; the
  object of the receiver is the same in the new heap, and a later \<^verbatim>\<open>choose\<close> on either
  builder, or a later construction, leaves the objects of both as they are. The
  queries are functions of the object alone. The new builder answers \<open>v\<close> for \<open>p\<close>,
  unless \<open>p\<close> is \<^verbatim>\<open>__proto__\<close>, which the merge does not record.
\<close>

theorem choose_keeps_receiver:
  assumes "b1 < length h" and "choose_value defn h b1 p v = (h', Inr b2)"
  shows "get (h' ! b1) q = get (h ! b1) q \<and> h' ! b1 = h ! b1 \<and> b2 \<noteq> b1 \<and> b2 < length h' \<and>
         h' ! b2 = merge (h ! b1) [(p, v)] \<and> (p \<noteq> ''__proto__'' \<longrightarrow> get (h' ! b2) p = v) \<and>
         fst (choose_value defn h' b2 p' v') ! b1 = h ! b1 \<and>
         fst (choose_value defn h' b1 p' v') ! b2 = h' ! b2 \<and>
         fst (new_GeneratedBuilder defn vals h') ! b1 = h ! b1 \<and>
         fst (new_GeneratedBuilder defn vals h') ! b2 = h' ! b2"
proof -
  let ?vals = "merge (h ! b1) [(p, v)]"
  from assms(2) have h': "h' = fst (new_GeneratedBuilder defn ?vals h)"
    and r: "snd (new_GeneratedBuilder defn ?vals h) = Inr b2"
    by (simp_all add: choose_value_def)
  have "own ?vals = ?vals" by (rule own_id) (rule merge_no_proto)
  with constructor_built [OF merge_distinct r]
  have b2: "b2 = length h" and heap: "h' = h @ [?vals]" using h' by simp_all
  from assms(1) heap have same: "h' ! b1 = h ! b1" by (simp add: nth_append)
  from b2 heap have new: "h' ! b2 = ?vals" by simp
  from b2 heap assms(1) have lt: "b1 < length h'" "b2 < length h'" by simp_all
  have "get (h' ! b2) p = v" if "p \<noteq> ''__proto__''"
    unfolding new get_def by (subst merge_snoc) (rule lookup_assign [OF that])
  moreover from lt same have "fst (choose_value defn h' b2 p' v') ! b1 = h ! b1"
    using choose_frame [of defn h' b2 p' v'] by simp
  moreover from lt have "fst (choose_value defn h' b1 p' v') ! b2 = h' ! b2"
    using choose_frame [of defn h' b1 p' v'] by simp
  moreover from lt same have "fst (new_GeneratedBuilder defn vals h') ! b1 = h ! b1"
    using constructor_frame [of defn vals h'] by simp
  moreover from lt have "fst (new_GeneratedBuilder defn vals h') ! b2 = h' ! b2"
    using constructor_frame [of defn vals h'] by simp
  ultimately show ?thesis using same new b2 assms(1) lt by simp
qed

theorem choose_keeps_receiver_witness:
  "(0::nat) < length [[] :: choices] \<and>
   choose_value scenario [[]] 0 ''class'' (VString ''mage'') =
     ([[], [(''class'', VString ''mage'')]], Inr 1) \<and>
   get ([[], [(''class'', VString ''mage'')]] ! 0) ''class'' = get ([[]] ! 0) ''class'' \<and>
   get ([[], [(''class'', VString ''mage'')]] ! 1) ''class'' = VString ''mage'' \<and>
   fst (choose_value scenario [[], [(''class'', VString ''mage'')]] 1 ''class.spell''
          (VString ''fireball'')) ! 0 = [[]] ! 0"
proof -
  have len: "(0::nat) < length [[] :: choices]" by simp
  have c: "choose_value scenario [[]] 0 ''class'' (VString ''mage'') =
             ([[], [(''class'', VString ''mage'')]], Inr 1)"
    by (simp add: eval_rules scenario_def)
  from choose_keeps_receiver
         [OF len c, of "''class''" "''class.spell''" "VString ''fireball''" "[]"]
  show ?thesis using c by simp
qed

section \<open>The order of the checks\<close>

text \<open>
  Claim C7 says that validation checks reachability first, then the type for a
  literal symbol or membership for an option map, then the validation predicate: a
  path that is not among the fields fails with InvalidField for that path, whatever the
  value, and for a reachable path a type or membership mismatch fails with InvalidChoice
  carrying the path, the value and a reason. Three builders show otherwise. In
  \<open>deep\<close>, the reachable path \<^verbatim>\<open>class.weapon.core\<close> has the one option \<^verbatim>\<open>phoenix\<close>, and
  the value \<^verbatim>\<open>5\<close> for it raises a TypeError, in \<^verbatim>\<open>choose\<close> and in the constructor. In
  \<open>wizard\<close>, where the root has a field \<^verbatim>\<open>weapon\<close> of its own, the value \<^verbatim>\<open>hello\<close> is
  accepted for the same path although it is not an option. Both come from
  \<^verbatim>\<open>_choiceConfig\<close>, which follows \<^verbatim>\<open>this.choices['weapon']\<close> where the ancestor of the path is
  \<^verbatim>\<open>class.weapon\<close>. And in the scenario, \<^verbatim>\<open>choose\<close> with the path \<^verbatim>\<open>__proto__\<close>, which is not a
  field, returns a builder: the merge records nothing, and the constructor has no entry to
  validate.
\<close>

theorem membership_unchecked_at_depth_three:
  "built deep deep_choices \<and>
   fields deep deep_choices = Inr [''class'', ''class.weapon'', ''class.weapon.core''] \<and>
   governing deep deep_choices ''class.weapon.core'' =
     Some (FieldSpec (Enumerated [(''phoenix'', SchemaNode [])]) None None) \<and>
   snd (choose_value deep [deep_choices] 0 ''class.weapon.core'' (VNumber 5)) = Inl TypeError \<and>
   snd (new_GeneratedBuilder deep (deep_choices @ [(''class.weapon.core'', VNumber 5)]) []) =
     Inl TypeError \<and>
   built wizard
     [(''class'', VString ''mage''), (''class.weapon'', VString ''staff''),
      (''weapon'', VString ''wand'')] \<and>
   fields wizard
     [(''class'', VString ''mage''), (''class.weapon'', VString ''staff''),
      (''weapon'', VString ''wand'')] =
     Inr [''class'', ''class.weapon'', ''class.weapon.core'', ''weapon''] \<and>
   governing wizard
     [(''class'', VString ''mage''), (''class.weapon'', VString ''staff''),
      (''weapon'', VString ''wand'')] ''class.weapon.core'' =
     Some (FieldSpec (Enumerated [(''phoenix'', SchemaNode [])]) None None) \<and>
   snd (choose_value wizard
          [[(''class'', VString ''mage''), (''class.weapon'', VString ''staff''),
            (''weapon'', VString ''wand'')]] 0 ''class.weapon.core'' (VString ''hello'')) = Inr 1 \<and>
   fields scenario [] = Inr [''name'', ''class''] \<and>
   choose_value scenario [[]] 0 ''__proto__'' (VNumber 1) = ([[], []], Inr 1)"
  by (simp add: eval_rules deep_def deep_choices_def wizard_def scenario_def)

section \<open>A descendant before its ancestor\<close>

text \<open>
  Claim C8 says that the constructor applies the entries of its argument one at a
  time, in order, each validated against the choices applied so far, and that therefore
  a mapping in which a descendant path comes before the choice of its ancestor fails
  with InvalidField for the descendant. The error is that of the first entry that
  fails: in the scenario, with a number for \<^verbatim>\<open>name\<close> before \<^verbatim>\<open>class.spell\<close> and \<^verbatim>\<open>class\<close>, the
  constructor raises InvalidChoice for \<^verbatim>\<open>name\<close>.
\<close>

theorem construct_descendant_first_counterexample:
  "lookup [(''name'', VNumber 5)] ''class'' = VUndefined \<and>
   fields scenario [(''class'', VString ''mage'')] = Inr [''name'', ''class'', ''class.spell''] \<and>
   snd (new_GeneratedBuilder scenario
          [(''name'', VNumber 5), (''class.spell'', VString ''fireball''),
           (''class'', VString ''mage'')] []) =
     Inl (InvalidChoice ''name'' (VNumber 5) (Some ''must be string'')) \<and>
   snd (new_GeneratedBuilder scenario
          [(''name'', VNumber 5), (''class.spell'', VString ''fireball''),
           (''class'', VString ''mage'')] []) \<noteq> Inl (InvalidField ''class.spell'')"
  by (simp add: eval_rules scenario_def)

text \<open>
  Claim C8, amended. For a mapping \<open>vals\<close> with distinct names:

  \<^item> the constructor returns a builder exactly when every entry is accepted by the
    validation against the own entries before it, and the builder then holds the own
    entries of \<open>vals\<close>, in order;

  \<^item> when the entries \<open>pre\<close> before an entry are accepted and the validation of that
    entry against them gives an error, the constructor raises this error;

  \<^item> in a schema without dots in its names, when the path \<^verbatim>\<open>a.k\<close> comes after entries
    \<open>pre\<close> that hold no choice for \<^verbatim>\<open>a\<close>, the constructor raises; when \<open>pre\<close> is accepted,
    the error is InvalidField for \<^verbatim>\<open>a.k\<close>, or the error that \<^verbatim>\<open>fields()\<close> raises on
    \<open>pre\<close>;

  \<^item> the choice of an option for a field \<^verbatim>\<open>f\<close> of the root is what makes the fields
    \<^verbatim>\<open>f.g\<close> of the option reachable.
\<close>

theorem construct_entries_in_order:
  assumes "distinct (map fst vals)"
  shows
    "(snd (new_GeneratedBuilder defn vals h) = Inr (length h) \<longleftrightarrow>
        (\<forall>i<length vals.
           validate defn (own (take i vals)) (fst (vals ! i)) (snd (vals ! i)) = None)) \<and>
     (snd (new_GeneratedBuilder defn vals h) = Inr (length h) \<longrightarrow>
        fst (new_GeneratedBuilder defn vals h) = h @ [own vals]) \<and>
     (vals = pre @ (d, w) # post \<and> built defn pre \<and> validate defn (own pre) d w = Some e \<longrightarrow>
        snd (new_GeneratedBuilder defn vals h) = Inl e) \<and>
     (dotFree defn \<and> vals = pre' @ (a @ ''.'' @ k, u) # post' \<and> CHR ''.'' \<notin> set k \<and>
      lookup pre' a = VUndefined \<longrightarrow>
        (\<exists>e'. snd (new_GeneratedBuilder defn vals h) = Inl e') \<and>
        (built defn pre' \<longrightarrow>
           snd (new_GeneratedBuilder defn vals h) =
             Inl (case fields defn (own pre') of
                    Inl e' \<Rightarrow> e' | Inr reachable \<Rightarrow> InvalidField (a @ ''.'' @ k)))) \<and>
     (fields defn ch = Inr paths \<and> (f, FieldSpec (Enumerated m) req vld) \<in> set (node_fields defn) \<and>
      lookup ch f = VString c \<and> map_of m c = Some sub \<and> (g, s) \<in> set (node_fields sub) \<longrightarrow>
        f @ ''.'' @ g \<in> set paths)"
proof -
  let ?new = "new_GeneratedBuilder defn vals h"
  have acc: "snd ?new = Inr (length h) \<longleftrightarrow> built defn vals"
    using assms by (auto simp: built_def constructor_assigned split: sum.splits)
  have 1: "snd ?new = Inr (length h) \<longleftrightarrow>
             (\<forall>i<length vals.
                validate defn (own (take i vals)) (fst (vals ! i)) (snd (vals ! i)) = None)"
    unfolding acc by (rule built_entries [OF assms])
  have 2: "fst ?new = h @ [own vals]" if "snd ?new = Inr (length h)"
    using constructor_built [OF assms that] by simp
  have 3: "snd ?new = Inl e"
    if "vals = pre @ (d, w) # post" "built defn pre" "validate defn (own pre) d w = Some e"
    using constructor_entry_fails(2) [OF assms that(1,3,2)] .
  have 4: "(\<exists>e'. snd ?new = Inl e') \<and>
           (built defn pre' \<longrightarrow>
              snd ?new = Inl (case fields defn (own pre') of
                                Inl e' \<Rightarrow> e' | Inr reachable \<Rightarrow> InvalidField (a @ ''.'' @ k)))"
    if "dotFree defn" "vals = pre' @ (a @ ''.'' @ k, u) # post'" "CHR ''.'' \<notin> set k"
      "lookup pre' a = VUndefined"
  proof -
    let ?e = "case fields defn (own pre') of
                Inl e' \<Rightarrow> e' | Inr reachable \<Rightarrow> InvalidField (a @ ''.'' @ k)"
    have la: "lookup (own pre') a = VUndefined"
    proof (cases "a = ''__proto__''")
      case True
      with own_no_proto [of pre'] have "map_of (own pre') a = None"
        by (simp add: map_of_eq_None_iff)
      then show ?thesis by (simp add: lookup_def)
    next
      case False
      with that(4) show ?thesis by (simp add: own_lookup)
    qed
    have v: "validate defn (own pre') (a @ ''.'' @ k) u = Some ?e"
    proof (cases "fields defn (own pre')")
      case (Inl e')
      then show ?thesis by (simp add: validate_def)
    next
      case (Inr reachable)
      from descendant_needs_ancestor [OF that(1) Inr _ that(3), of a] la
      have "a @ ''.'' @ k \<notin> set reachable" by blast
      from validate_unreachable [OF Inr this] Inr show ?thesis by simp
    qed
    from constructor_entry_fails [OF assms that(2) v, of h] show ?thesis by blast
  qed
  have 5: "f @ ''.'' @ g \<in> set paths"
    if "fields defn ch = Inr paths" "(f, FieldSpec (Enumerated m) req vld) \<in> set (node_fields defn)"
      "lookup ch f = VString c" "map_of m c = Some sub" "(g, s) \<in> set (node_fields sub)"
    using that by (rule chosen_option_reaches)
  from 1 2 3 4 5 show ?thesis by blast
qed

theorem construct_entries_in_order_witness:
  "distinct (map fst [(''name'', VString ''Ann''), (''class.spell'', VString ''fireball''),
                      (''class'', VString ''mage'')]) \<and>
   dotFree scenario \<and> lookup [(''name'', VString ''Ann'')] ''class'' = VUndefined \<and>
   built scenario [(''name'', VString ''Ann'')] \<and>
   fields scenario (own [(''name'', VString ''Ann'')]) = Inr [''name'', ''class''] \<and>
   snd (new_GeneratedBuilder scenario
          [(''name'', VString ''Ann''), (''class.spell'', VString ''fireball''),
           (''class'', VString ''mage'')] []) = Inl (InvalidField ''class.spell'') \<and>
   distinct (map fst [(''class'', VString ''mage''), (''class.spell'', VString ''fireball'')]) \<and>
   snd (new_GeneratedBuilder scenario
          [(''class'', VString ''mage''), (''class.spell'', VString ''fireball'')] []) = Inr 0 \<and>
   fst (new_GeneratedBuilder scenario
          [(''class'', VString ''mage''), (''class.spell'', VString ''fireball'')] []) =
     [[(''class'', VString ''mage''), (''class.spell'', VString ''fireball'')]] \<and>
   fields scenario [(''class'', VString ''mage'')] = Inr [''name'', ''class'', ''class.spell''] \<and>
   ''class.spell'' \<in> set [''name'', ''class'', ''class.spell'']"
proof -
  let ?pre = "[(''name'', VString ''Ann'')]"
  let ?post = "[(''class'', VString ''mage'')]"
  let ?vals = "[(''name'', VString ''Ann''), (''class.spell'', VString ''fireball''),
                (''class'', VString ''mage'')]"
  let ?ok = "[(''class'', VString ''mage''), (''class.spell'', VString ''fireball'')]"
  let ?mage = "SchemaNode [(''spell'', FieldSpec (Literal STRING) (Some True) None)]"
  let ?m = "[(''warrior'', SchemaNode []), (''mage'', ?mage)]"
  have d: "distinct (map fst ?vals)" by simp
  have 1: "dotFree scenario" by (simp add: dotFree_def scenario_def)
  have 2: "?vals = ?pre @ (''class'' @ ''.'' @ ''spell'', VString ''fireball'') # ?post" by simp
  have 3: "CHR ''.'' \<notin> set ''spell''" by simp
  have 4: "lookup ?pre ''class'' = VUndefined" by (simp add: lookup_def)
  have 5: "built scenario ?pre" by (simp add: eval_rules scenario_def)
  have 6: "fields scenario (own ?pre) = Inr [''name'', ''class'']"
    by (simp add: eval_rules own_def scenario_def)
  have d': "distinct (map fst ?ok)" by simp
  have 7: "snd (new_GeneratedBuilder scenario ?ok []) = Inr (length ([] :: heap))"
    by (simp add: eval_rules scenario_def)
  have 8: "fields scenario [(''class'', VString ''mage'')] = Inr [''name'', ''class'', ''class.spell'']"
    by (simp add: eval_rules scenario_def)
  have 9: "(''class'', FieldSpec (Enumerated ?m) (Some True) None) \<in> set (node_fields scenario)"
    by (simp add: scenario_def)
  have 10: "lookup [(''class'', VString ''mage'')] ''class'' = VString ''mage''"
    by (simp add: lookup_def)
  have 11: "map_of ?m ''mage'' = Some ?mage" by simp
  have 12: "(''spell'', FieldSpec (Literal STRING) (Some True) None) \<in> set (node_fields ?mage)"
    by simp
  from construct_entries_in_order
         [OF d, where defn = scenario and h = "[]" and pre' = ?pre and a = "''class''"
            and k = "''spell''" and u = "VString ''fireball''" and post' = ?post]
       1 2 3 4 5
  have "snd (new_GeneratedBuilder scenario ?vals []) =
          Inl (case fields scenario (own ?pre) of
                 Inl e' \<Rightarrow> e' | Inr reachable \<Rightarrow> InvalidField (''class'' @ ''.'' @ ''spell''))"
    by blast
  with 6 have bad: "snd (new_GeneratedBuilder scenario ?vals []) = Inl (InvalidField ''class.spell'')"
    by simp
  from construct_entries_in_order
         [OF d', where defn = scenario and h = "[]" and ch = "[(''class'', VString ''mage'')]"
            and paths = "[''name'', ''class'', ''class.spell'']" and f = "''class''" and m = ?m
            and req = "Some True" and vld = None and c = "''mage''" and sub = ?mage
            and g = "''spell''" and s = "FieldSpec (Literal STRING) (Some True) None"]
       7 8 9 10 11 12
  have "fst (new_GeneratedBuilder scenario ?ok []) = [] @ [own ?ok] \<and>
        ''class'' @ ''.'' @ ''spell'' \<in> set [''name'', ''class'', ''class.spell'']"
    by blast
  then have good: "fst (new_GeneratedBuilder scenario ?ok []) = [?ok]"
    and "''class.spell'' \<in> set [''name'', ''class'', ''class.spell'']"
    by (simp_all add: own_def)
  with d 1 4 5 6 bad d' 7 8 show ?thesis by simp
qed

section \<open>A missing field has no value\<close>

text \<open>
  Claim C9. Every path in the sequence that \<^verbatim>\<open>missing()\<close> returns has no value:
  \<^verbatim>\<open>get\<close> answers \<^verbatim>\<open>undefined\<close> for it.
\<close>

theorem missing_not_gettable:
  "missing fuel defn ch = Some (Inr ps) \<Longrightarrow> p \<in> set ps \<Longrightarrow> get ch p = VUndefined"
  using findMissingFor_undefined [of fuel defn ch "[[]]" ps p]
  by (simp add: missing_def get_def undefinedChoice_def)

theorem missing_not_gettable_witness:
  "missing (Suc (Suc 0)) scenario [(''class'', VString ''mage'')] =
     Some (Inr [''name'', ''class.spell'']) \<and>
   ''class.spell'' \<in> set [''name'', ''class.spell''] \<and>
   get [(''class'', VString ''mage'')] ''class.spell'' = VUndefined"
proof -
  have m: "missing (Suc (Suc 0)) scenario [(''class'', VString ''mage'')] =
             Some (Inr [''name'', ''class.spell''])"
    by (simp add: eval_rules scenario_def)
  have i: "''class.spell'' \<in> set [''name'', ''class.spell'']" by simp
  from missing_not_gettable [OF m i] m i show ?thesis by simp
qed

section \<open>Choosing another option over recorded descendants\<close>




end
